theory Spec2Isabelle
  imports Main "HOL-Library.Word"
begin

section \<open>The FSM interpreter of core\_engine/fsm\_core.cpp\<close>

subsection \<open>Documents and failures\<close>

text \<open>
  The simulator reads its two documents with the JSON library, which is not part of the
  repository. A document is given here by what \<^verbatim>\<open>json::parse\<close> makes of the text:
  \<open>None\<close> when the parser throws \<^verbatim>\<open>parse_error\<close>, and the parsed value otherwise.
  The simulator never looks into a number, so the numbers are a type parameter. An
  object is the list of its members in the order in which the library iterates them.
\<close>

datatype 'n json =
    JNull
  | JBool bool
  | JNumber 'n
  | JString string
  | JArray "'n json list"
  | JObject "(string \<times> 'n json) list"

type_synonym 'n document = "'n json option"

text \<open>
  The ways a call can fail: the two exceptions of the JSON library (a type error carries
  the library's number for it), and the two kinds of undefined behaviour the class can
  run into, reading through a pointer whose state is gone and \<^verbatim>\<open>back()\<close> on an empty
  vector.
\<close>

datatype error =
    Json_parse_error
  | Json_type_error nat
  | Dangling_pointer
  | Back_of_empty

text \<open>\<^verbatim>\<open>data[key]\<close> on a value that is not \<^verbatim>\<open>const\<close>: null behaves as the empty object,
  a missing member reads as null, anything but an object throws error 305.\<close>

fun json_subscript :: "'n json \<Rightarrow> string \<Rightarrow> error + 'n json" where
  "json_subscript JNull k = Inr JNull"
| "json_subscript (JObject kvs) k = Inr (case map_of kvs k of None \<Rightarrow> JNull | Some v \<Rightarrow> v)"
| "json_subscript _ k = Inl (Json_type_error 305)"

text \<open>The elements a range-for visits: those of an array, the member values of an object,
  nothing for null, the value itself for any other.\<close>

fun json_elements :: "'n json \<Rightarrow> 'n json list" where
  "json_elements JNull = []"
| "json_elements (JArray xs) = xs"
| "json_elements (JObject kvs) = map snd kvs"
| "json_elements j = [j]"

text \<open>\<^verbatim>\<open>j.value(key, default)\<close> for a string and for a bool default: error 306 unless
  \<open>j\<close> is an object, the default when the member is missing, error 302 when the member has
  another type.\<close>

fun json_value_string :: "'n json \<Rightarrow> string \<Rightarrow> string \<Rightarrow> error + string" where
  "json_value_string (JObject kvs) k d =
     (case map_of kvs k of
        None \<Rightarrow> Inr d
      | Some (JString s) \<Rightarrow> Inr s
      | Some _ \<Rightarrow> Inl (Json_type_error 302))"
| "json_value_string _ k d = Inl (Json_type_error 306)"

fun json_value_bool :: "'n json \<Rightarrow> string \<Rightarrow> bool \<Rightarrow> error + bool" where
  "json_value_bool (JObject kvs) k d =
     (case map_of kvs k of
        None \<Rightarrow> Inr d
      | Some (JBool b) \<Rightarrow> Inr b
      | Some _ \<Rightarrow> Inl (Json_type_error 302))"
| "json_value_bool _ k d = Inl (Json_type_error 306)"

text \<open>The decimal numeral of an array index, the key \<^verbatim>\<open>items()\<close> gives an element.\<close>

function to_string :: "nat \<Rightarrow> string" where
  "to_string n =
     (if n < 10 then [char_of (48 + n)]
      else to_string (n div 10) @ [char_of (48 + n mod 10)])"
  by pat_completeness auto
termination
  by (relation "measure id") auto

declare to_string.simps [simp del]

fun array_items :: "nat \<Rightarrow> 'n json list \<Rightarrow> (string \<times> 'n json) list" where
  "array_items i [] = []"
| "array_items i (x # xs) = (to_string i, x) # array_items (Suc i) xs"

text \<open>\<^verbatim>\<open>data.items()\<close>: the members of an object, the elements of an array under their
  indices, nothing for null, any other value under the empty key.\<close>

fun json_items :: "'n json \<Rightarrow> (string \<times> 'n json) list" where
  "json_items JNull = []"
| "json_items (JArray xs) = array_items 0 xs"
| "json_items (JObject kvs) = kvs"
| "json_items j = ([], j) # []"

subsection \<open>The data of the simulator\<close>

record State =
  name :: string
  entry_action :: string
  during_action :: string
  exit_action :: string
  is_initial :: bool
  is_final :: bool

record Transition =
  source :: string
  target :: string
  event :: string
  condition :: string
  action :: string

text \<open>
  A \<^verbatim>\<open>State *\<close> always addresses an element of the vector \<^verbatim>\<open>states_\<close>. It is modelled
  by the index of that element, together with the epoch of the vector at which the address
  was taken: \<^verbatim>\<open>states_.clear()\<close> destroys the elements, so every pointer taken before
  it is dangling afterwards, also when the index is in range again. The null pointer is
  \<open>None\<close> of \<open>State_ptr option\<close>.
\<close>

datatype State_ptr = Ptr (ptr_epoch: nat) (ptr_index: nat)

text \<open>
  An element of \<^verbatim>\<open>action_log_\<close> is the serialised object with the members \<^verbatim>\<open>type\<close> and
  \<^verbatim>\<open>data\<close>. The serialisation is the JSON library's and one-to-one on the two strings;
  the model keeps the two strings.
\<close>

datatype log_entry = Log_entry (entry_type: string) (entry_data: string)

text \<open>
  The members of the class, in the order of their declaration and under their names
  without the final underscore, which a name of the logic cannot end in. \<open>states_epoch\<close>
  is the only field that is not a member: it counts the calls of \<^verbatim>\<open>states_.clear()\<close>.
  A key of \<open>state_map\<close> may hold the null pointer. \<^verbatim>\<open>int\<close> has 32 bits and the
  increment wraps.
\<close>

record FsmSimulator =
  states :: "State list"
  states_epoch :: nat
  state_map :: "string \<rightharpoonup> State_ptr option"
  transitions :: "Transition list"
  current_tick :: "32 word"
  current_state_path :: "State_ptr list"
  variables :: "string \<rightharpoonup> string"
  initial_variables :: "string \<rightharpoonup> string"
  action_log :: "log_entry list"
  pending_transition :: "Transition option"
  internal_event_queue :: "string list"

text \<open>Reading through a pointer, \<^verbatim>\<open>p->field\<close>.\<close>

definition deref :: "State_ptr \<Rightarrow> FsmSimulator \<Rightarrow> error + State" where
  "deref p sim =
     (if ptr_epoch p = states_epoch sim \<and> ptr_index p < length (states sim)
      then Inr (states sim ! ptr_index p)
      else Inl Dangling_pointer)"

subsection \<open>Logging\<close>

definition logAction :: "string \<Rightarrow> string \<Rightarrow> FsmSimulator \<Rightarrow> FsmSimulator" where
  "logAction ty dat sim =
     (if dat \<noteq> [] then sim\<lparr>action_log := action_log sim @ [Log_entry ty dat]\<rparr> else sim)"

definition executeAction :: "string \<Rightarrow> string \<Rightarrow> FsmSimulator \<Rightarrow> FsmSimulator" where
  "executeAction ty code sim = (if code \<noteq> [] then logAction ty code sim else sim)"

subsection \<open>Loading\<close>

definition state_of_json :: "'n json \<Rightarrow> error + State" where
  "state_of_json s_data =
     (case json_value_string s_data ''name'' [] of Inl e \<Rightarrow> Inl e | Inr n \<Rightarrow>
     (case json_value_string s_data ''entry_action'' [] of Inl e \<Rightarrow> Inl e | Inr en \<Rightarrow>
     (case json_value_string s_data ''during_action'' [] of Inl e \<Rightarrow> Inl e | Inr du \<Rightarrow>
     (case json_value_string s_data ''exit_action'' [] of Inl e \<Rightarrow> Inl e | Inr ex \<Rightarrow>
     (case json_value_bool s_data ''is_initial'' False of Inl e \<Rightarrow> Inl e | Inr ini \<Rightarrow>
     (case json_value_bool s_data ''is_final'' False of Inl e \<Rightarrow> Inl e | Inr fin \<Rightarrow>
        Inr \<lparr>name = n, entry_action = en, during_action = du, exit_action = ex,
             is_initial = ini, is_final = fin\<rparr>))))))"

definition transition_of_json :: "'n json \<Rightarrow> error + Transition" where
  "transition_of_json t_data =
     (case json_value_string t_data ''source'' [] of Inl e \<Rightarrow> Inl e | Inr so \<Rightarrow>
     (case json_value_string t_data ''target'' [] of Inl e \<Rightarrow> Inl e | Inr ta \<Rightarrow>
     (case json_value_string t_data ''event'' [] of Inl e \<Rightarrow> Inl e | Inr ev \<Rightarrow>
     (case json_value_string t_data ''condition'' [] of Inl e \<Rightarrow> Inl e | Inr co \<Rightarrow>
     (case json_value_string t_data ''action'' [] of Inl e \<Rightarrow> Inl e | Inr ac \<Rightarrow>
        Inr \<lparr>source = so, target = ta, event = ev, condition = co, action = ac\<rparr>)))))"

text \<open>The three loops of \<^verbatim>\<open>loadFromJson\<close>. An exception leaves a loop with the elements
  pushed so far in place.\<close>

fun load_states :: "'n json list \<Rightarrow> FsmSimulator \<Rightarrow> error option \<times> FsmSimulator" where
  "load_states [] sim = (None, sim)"
| "load_states (s_data # rest) sim =
     (case state_of_json s_data of
        Inl e \<Rightarrow> (Some e, sim)
      | Inr s \<Rightarrow> load_states rest (sim\<lparr>states := states sim @ [s]\<rparr>))"

fun map_states :: "nat \<Rightarrow> State list \<Rightarrow> FsmSimulator \<Rightarrow> FsmSimulator" where
  "map_states i [] sim = sim"
| "map_states i (s # rest) sim =
     map_states (Suc i) rest
       (sim\<lparr>state_map := (state_map sim)(name s \<mapsto> Some (Ptr (states_epoch sim) i))\<rparr>)"

fun load_transitions :: "'n json list \<Rightarrow> FsmSimulator \<Rightarrow> error option \<times> FsmSimulator" where
  "load_transitions [] sim = (None, sim)"
| "load_transitions (t_data # rest) sim =
     (case transition_of_json t_data of
        Inl e \<Rightarrow> (Some e, sim)
      | Inr t \<Rightarrow> load_transitions rest (sim\<lparr>transitions := transitions sim @ [t]\<rparr>))"

text \<open>\<^verbatim>\<open>loadFromJson\<close> returns the exception it throws, if any, and the object as the
  exception leaves it: the three containers are cleared before the text is parsed.\<close>

definition loadFromJson :: "'n document \<Rightarrow> FsmSimulator \<Rightarrow> error option \<times> FsmSimulator" where
  "loadFromJson doc sim =
     (let s1 = sim\<lparr>states := [], states_epoch := Suc (states_epoch sim),
                   state_map := Map.empty, transitions := []\<rparr>
      in case doc of
           None \<Rightarrow> (Some Json_parse_error, s1)
         | Some data \<Rightarrow>
            (case json_subscript data ''states'' of
               Inl e \<Rightarrow> (Some e, s1)
             | Inr ss \<Rightarrow>
                (case load_states (json_elements ss) s1 of
                   (Some e, s2) \<Rightarrow> (Some e, s2)
                 | (None, s2) \<Rightarrow>
                    (let s3 = map_states 0 (states s2) s2
                     in case json_subscript data ''transitions'' of
                          Inl e \<Rightarrow> (Some e, s3)
                        | Inr ts \<Rightarrow> load_transitions (json_elements ts) s3))))"

text \<open>The C entry point catches every exception and answers with a bool.\<close>

definition load_fsm_from_json :: "'n document \<Rightarrow> FsmSimulator \<Rightarrow> bool \<times> FsmSimulator" where
  "load_fsm_from_json doc sim =
     (case loadFromJson doc sim of
        (None, s) \<Rightarrow> (True, s)
      | (Some e, s) \<Rightarrow> (False, s))"

text \<open>\<^verbatim>\<open>setInitialVariables\<close> stores every value in its serialised form; the serialiser
  of the library is the parameter \<open>dump\<close>. Nothing catches the exception of the parser,
  neither here nor in the C entry point.\<close>

fun store_items :: "('n json \<Rightarrow> string) \<Rightarrow> (string \<times> 'n json) list \<Rightarrow> FsmSimulator \<Rightarrow> FsmSimulator" where
  "store_items dump [] sim = sim"
| "store_items dump ((k, v) # rest) sim =
     store_items dump rest (sim\<lparr>initial_variables := (initial_variables sim)(k \<mapsto> dump v)\<rparr>)"

definition setInitialVariables ::
  "('n json \<Rightarrow> string) \<Rightarrow> 'n document \<Rightarrow> FsmSimulator \<Rightarrow> error + FsmSimulator" where
  "setInitialVariables dump doc sim =
     (let s1 = sim\<lparr>initial_variables := Map.empty\<rparr>
      in case doc of
           None \<Rightarrow> Inl Json_parse_error
         | Some data \<Rightarrow> Inr (store_items dump (json_items data) s1))"

definition set_initial_variables_from_json ::
  "('n json \<Rightarrow> string) \<Rightarrow> 'n document \<Rightarrow> FsmSimulator \<Rightarrow> error + FsmSimulator" where
  "set_initial_variables_from_json dump doc sim = setInitialVariables dump doc sim"

subsection \<open>Reset, transitions and steps\<close>

definition enterState :: "State_ptr \<Rightarrow> FsmSimulator \<Rightarrow> error + FsmSimulator" where
  "enterState p sim =
     (let s1 = sim\<lparr>current_state_path := current_state_path sim @ [p]\<rparr>
      in case deref p s1 of
           Inl e \<Rightarrow> Inl e
         | Inr st \<Rightarrow> Inr (executeAction ''ENTRY_STATE'' (entry_action st) s1))"

text \<open>The first state marked initial, as the loop with its \<^verbatim>\<open>break\<close> finds it.\<close>

fun find_initial :: "nat \<Rightarrow> State list \<Rightarrow> nat option" where
  "find_initial i [] = None"
| "find_initial i (s # rest) = (if is_initial s then Some i else find_initial (Suc i) rest)"

definition reset :: "FsmSimulator \<Rightarrow> error + FsmSimulator" where
  "reset sim =
     (let s1 = sim\<lparr>action_log := [], variables := initial_variables sim,
                   current_tick := 0, current_state_path := [],
                   pending_transition := None, internal_event_queue := []\<rparr>;
          found = find_initial 0 (states s1);
          initial_state =
            (case found of
               Some i \<Rightarrow> Some (Ptr (states_epoch s1) i)
             | None \<Rightarrow> if states s1 \<noteq> [] then Some (Ptr (states_epoch s1) 0) else None)
      in case initial_state of
           Some p \<Rightarrow> enterState p s1
         | None \<Rightarrow> Inr s1)"

text \<open>\<^verbatim>\<open>state_map[trans.target]\<close> is the subscript of \<^verbatim>\<open>std::map\<close>: a key that is
  missing is inserted with the null pointer.\<close>

definition executeTransition :: "Transition \<Rightarrow> FsmSimulator \<Rightarrow> error + FsmSimulator" where
  "executeTransition tr sim =
     (if current_state_path sim = [] then Inl Back_of_empty
      else case deref (last (current_state_path sim)) sim of
        Inl e \<Rightarrow> Inl e
      | Inr cur \<Rightarrow>
         (let s1 = executeAction ''EXIT_STATE'' (exit_action cur) sim;
              s2 = executeAction ''TRANSITION_ACTION'' (action tr) s1;
              s3 = s2\<lparr>current_state_path := butlast (current_state_path s2)\<rparr>
          in case state_map s3 (target tr) of
               None \<Rightarrow> Inr (s3\<lparr>state_map := (state_map s3)(target tr \<mapsto> None)\<rparr>)
             | Some None \<Rightarrow> Inr s3
             | Some (Some new_state) \<Rightarrow> enterState new_state s3))"

text \<open>The scan of the transitions in \<^verbatim>\<open>step\<close>: the first one whose source is the name
  of the leaf state and whose event is the current event. The pointer is read once for
  every transition looked at.\<close>

fun find_transition ::
  "Transition list \<Rightarrow> State_ptr \<Rightarrow> string \<Rightarrow> FsmSimulator \<Rightarrow> error + Transition option" where
  "find_transition [] p current_event sim = Inr None"
| "find_transition (tr # rest) p current_event sim =
     (case deref p sim of
        Inl e \<Rightarrow> Inl e
      | Inr leaf \<Rightarrow>
         if source tr = name leaf \<and> event tr = current_event then Inr (Some tr)
         else find_transition rest p current_event sim)"

text \<open>The \<^verbatim>\<open>while\<close> loop of \<^verbatim>\<open>step\<close>. The flag \<^verbatim>\<open>transition_taken_this_step\<close> ends the
  loop right after the transition, and the \<^verbatim>\<open>return\<close> of the conditional case ends the
  call, so both are results of the loop.\<close>

function step_loop :: "string \<Rightarrow> FsmSimulator \<Rightarrow> error + FsmSimulator" where
  "step_loop event_name_str sim =
     (if internal_event_queue sim = [] then Inr sim
      else
        let current_event = hd (internal_event_queue sim);
            s1 = sim\<lparr>internal_event_queue := tl (internal_event_queue sim)\<rparr>;
            s2 = (if current_tick s1 = 0 \<or> event_name_str \<noteq> []
                  then s1\<lparr>current_tick := current_tick s1 + 1\<rparr> else s1)
        in if current_state_path s2 = [] then Inl Back_of_empty
           else case find_transition (transitions s2) (last (current_state_path s2))
                       current_event s2 of
                  Inl e \<Rightarrow> Inl e
                | Inr None \<Rightarrow> step_loop event_name_str s2
                | Inr (Some tr) \<Rightarrow>
                    if condition tr \<noteq> []
                    then Inr ((logAction ''AWAIT_CONDITION'' (condition tr) s2)
                                \<lparr>pending_transition := Some tr\<rparr>)
                    else executeTransition tr s2)"
  by pat_completeness auto
termination
  by (relation "measure (\<lambda>(ev, sim). length (internal_event_queue sim))") auto

declare step_loop.simps [simp del]

definition step :: "string \<Rightarrow> FsmSimulator \<Rightarrow> error + FsmSimulator" where
  "step event_name_str sim =
     (let s1 = sim\<lparr>action_log := []\<rparr>;
          s2 = (if event_name_str \<noteq> []
                then s1\<lparr>internal_event_queue := internal_event_queue s1 @ [event_name_str]\<rparr>
                else s1)
      in if current_state_path s2 = [] then Inr s2
         else if event_name_str = [] then
           (let s3 = s2\<lparr>current_tick := current_tick s2 + 1\<rparr>
            in case deref (last (current_state_path s3)) s3 of
                 Inl e \<Rightarrow> Inl e
               | Inr cur \<Rightarrow>
                   step_loop event_name_str (executeAction ''DURING_ACTION'' (during_action cur) s3))
         else step_loop event_name_str s2)"

definition resolve_condition :: "bool \<Rightarrow> FsmSimulator \<Rightarrow> error + FsmSimulator" where
  "resolve_condition result sim =
     (let s1 = sim\<lparr>action_log := []\<rparr>
      in case pending_transition s1 of
           None \<Rightarrow> Inr s1
         | Some tr \<Rightarrow>
            (if result
             then (case executeTransition tr s1 of
                     Inl e \<Rightarrow> Inl e
                   | Inr s2 \<Rightarrow> Inr (s2\<lparr>pending_transition := None\<rparr>))
             else Inr ((logAction ''INFO'' ''Condition failed, transition aborted.'' s1)
                         \<lparr>pending_transition := None\<rparr>)))"

definition queue_internal_event :: "string \<Rightarrow> FsmSimulator \<Rightarrow> FsmSimulator" where
  "queue_internal_event event_name sim =
     sim\<lparr>internal_event_queue := internal_event_queue sim @ [event_name]\<rparr>"

subsection \<open>Reading the simulator\<close>

definition getCurrentStateName :: "FsmSimulator \<Rightarrow> error + string" where
  "getCurrentStateName sim =
     (if current_state_path sim = [] then Inr ''Halted''
      else case deref (last (current_state_path sim)) sim of
             Inl e \<Rightarrow> Inl e
           | Inr st \<Rightarrow> Inr (name st))"

text \<open>The two documents handed back are given by the containers they serialise.\<close>

definition getVariablesJson :: "FsmSimulator \<Rightarrow> (string \<rightharpoonup> string)" where
  "getVariablesJson sim = variables sim"

definition getAndClearLogJson :: "FsmSimulator \<Rightarrow> log_entry list \<times> FsmSimulator" where
  "getAndClearLogJson sim = (action_log sim, sim\<lparr>action_log := []\<rparr>)"

definition getCurrentTick :: "FsmSimulator \<Rightarrow> 32 word" where
  "getCurrentTick sim = current_tick sim"

text \<open>The constructor runs \<^verbatim>\<open>reset\<close> on the members as they are default-constructed;
  \<^verbatim>\<open>reset\<close> assigns the tick, the one member without an initial value, before any read.\<close>

definition FsmSimulator_members :: FsmSimulator where
  "FsmSimulator_members =
     \<lparr>states = [], states_epoch = 0, state_map = Map.empty, transitions = [],
      current_tick = 0, current_state_path = [], variables = Map.empty,
      initial_variables = Map.empty, action_log = [], pending_transition = None,
      internal_event_queue = []\<rparr>"

definition create_fsm :: "error + FsmSimulator" where
  "create_fsm = reset FsmSimulator_members"

subsection \<open>The calls of the C interface\<close>

text \<open>
  A client drives a simulator by the functions of the C interface, one constructor for
  each that changes the object. A null event name of \<^verbatim>\<open>step\<close> is the empty name.
  A run ends at the first call that fails: nothing catches the exception of
  \<^verbatim>\<open>set_initial_variables_from_json\<close>, and undefined behaviour has no next state.
\<close>

datatype 'n call =
    Load "'n document"
  | Set_initial_variables "'n document"
  | Reset
  | Step string
  | Resolve_condition bool
  | Queue_internal_event string
  | Get_and_clear_log

fun api_call :: "('n json \<Rightarrow> string) \<Rightarrow> 'n call \<Rightarrow> FsmSimulator \<Rightarrow> error + FsmSimulator" where
  "api_call dump (Load doc) sim = Inr (snd (load_fsm_from_json doc sim))"
| "api_call dump (Set_initial_variables doc) sim = set_initial_variables_from_json dump doc sim"
| "api_call dump Reset sim = reset sim"
| "api_call dump (Step event_name) sim = step event_name sim"
| "api_call dump (Resolve_condition result) sim = resolve_condition result sim"
| "api_call dump (Queue_internal_event event_name) sim = Inr (queue_internal_event event_name sim)"
| "api_call dump Get_and_clear_log sim = Inr (snd (getAndClearLogJson sim))"

fun api_run :: "('n json \<Rightarrow> string) \<Rightarrow> 'n call list \<Rightarrow> FsmSimulator \<Rightarrow> error + FsmSimulator" where
  "api_run dump [] sim = Inr sim"
| "api_run dump (c # cs) sim =
     (case api_call dump c sim of Inl e \<Rightarrow> Inl e | Inr s \<Rightarrow> api_run dump cs s)"

text \<open>A simulator a client can hold: the one \<^verbatim>\<open>create_fsm\<close> returns, after any calls.\<close>

definition create_and_run :: "('n json \<Rightarrow> string) \<Rightarrow> 'n call list \<Rightarrow> error + FsmSimulator" where
  "create_and_run dump cs = (case create_fsm of Inl e \<Rightarrow> Inl e | Inr s \<Rightarrow> api_run dump cs s)"

subsection \<open>Notions the properties are stated with\<close>

text \<open>What a call of \<^verbatim>\<open>executeAction\<close> adds to the log: one entry, or none for empty code.\<close>

definition logged :: "string \<Rightarrow> string \<Rightarrow> log_entry list" where
  "logged ty code = (if code = [] then [] else [Log_entry ty code])"

text \<open>A transition matches a state and an event, as the scan of \<^verbatim>\<open>step\<close> tests it.\<close>

definition matches :: "State \<Rightarrow> string \<Rightarrow> Transition \<Rightarrow> bool" where
  "matches leaf ev tr = (source tr = name leaf \<and> event tr = ev)"

text \<open>The rule of the loop of \<^verbatim>\<open>step\<close> for the tick, at one dequeued event.\<close>

definition tick_rule :: "string \<Rightarrow> 32 word \<Rightarrow> 32 word" where
  "tick_rule event_name_str t = (if t = 0 \<or> event_name_str \<noteq> [] then t + 1 else t)"

text \<open>The calls that do not touch the log: all but \<^verbatim>\<open>reset_fsm\<close>, \<^verbatim>\<open>step\<close> and
  \<^verbatim>\<open>resolve_condition\<close>. Reading the log twice is the case of the claim.\<close>

fun keeps_log :: "'n call \<Rightarrow> bool" where
  "keeps_log Reset = False"
| "keeps_log (Step event_name) = False"
| "keeps_log (Resolve_condition result) = False"
| "keeps_log c = True"

text \<open>The calls of a run that only steps and queues events with a name.\<close>

fun steps_named_events :: "'n call \<Rightarrow> bool" where
  "steps_named_events (Step event_name) = True"
| "steps_named_events (Queue_internal_event event_name) = (event_name \<noteq> [])"
| "steps_named_events c = False"

text \<open>The simulator without the transitions whose event is the empty string.\<close>

definition without_empty_events :: "FsmSimulator \<Rightarrow> FsmSimulator" where
  "without_empty_events sim =
     sim\<lparr>transitions := filter (\<lambda>tr. event tr \<noteq> []) (transitions sim)\<rparr>"

subsection \<open>An example machine\<close>

text \<open>
  Two states: \<open>A\<close>, marked initial, with a during and an exit action, and \<open>B\<close> with an
  entry action. Four transitions leave \<open>A\<close>: on \<open>go\<close> to \<open>B\<close>, on \<open>ask\<close> to \<open>B\<close> under
  a condition, on \<open>lost\<close> to a state the model does not have, and one with the empty event.
\<close>

definition example_document :: "nat json" where
  "example_document =
     JObject
      [(''states'', JArray
         [JObject [(''name'', JString ''A''), (''during_action'', JString ''tickA''),
                   (''exit_action'', JString ''leaveA''), (''is_initial'', JBool True)],
          JObject [(''name'', JString ''B''), (''entry_action'', JString ''enterB'')]]),
       (''transitions'', JArray
         [JObject [(''source'', JString ''A''), (''target'', JString ''B''),
                   (''event'', JString ''go''), (''action'', JString ''move'')],
          JObject [(''source'', JString ''A''), (''target'', JString ''B''),
                   (''event'', JString ''ask''), (''condition'', JString ''x > 0'')],
          JObject [(''source'', JString ''A''), (''target'', JString ''Missing''),
                   (''event'', JString ''lost'')],
          JObject [(''source'', JString ''A''), (''target'', JString ''B'')]])]"

definition state_A :: State where
  "state_A = \<lparr>name = ''A'', entry_action = [], during_action = ''tickA'',
              exit_action = ''leaveA'', is_initial = True, is_final = False\<rparr>"

definition state_B :: State where
  "state_B = \<lparr>name = ''B'', entry_action = ''enterB'', during_action = [],
              exit_action = [], is_initial = False, is_final = False\<rparr>"

definition on_go :: Transition where
  "on_go = \<lparr>source = ''A'', target = ''B'', event = ''go'', condition = [], action = ''move''\<rparr>"

definition on_ask :: Transition where
  "on_ask = \<lparr>source = ''A'', target = ''B'', event = ''ask'', condition = ''x > 0'', action = []\<rparr>"

definition on_lost :: Transition where
  "on_lost = \<lparr>source = ''A'', target = ''Missing'', event = ''lost'', condition = [], action = []\<rparr>"

definition on_nothing :: Transition where
  "on_nothing = \<lparr>source = ''A'', target = ''B'', event = [], condition = [], action = []\<rparr>"

text \<open>The simulator after \<^verbatim>\<open>create_fsm\<close>, the load of the example and \<^verbatim>\<open>reset_fsm\<close>.\<close>

definition example_sim :: FsmSimulator where
  "example_sim =
     \<lparr>states = [state_A, state_B], states_epoch = 1,
      state_map = [''A'' \<mapsto> Some (Ptr 1 0), ''B'' \<mapsto> Some (Ptr 1 1)],
      transitions = [on_go, on_ask, on_lost, on_nothing],
      current_tick = 0, current_state_path = [Ptr 1 0], variables = Map.empty,
      initial_variables = Map.empty, action_log = [], pending_transition = None,
      internal_event_queue = []\<rparr>"

text \<open>A serialiser to run the examples with; they store no variable.\<close>

definition no_dump :: "nat json \<Rightarrow> string" where
  "no_dump j = []"

section \<open>Properties\<close>

subsection \<open>Logging and pointers\<close>

lemma logAction_eq:
  "logAction ty dat sim = sim\<lparr>action_log := action_log sim @ logged ty dat\<rparr>"
  by (simp add: logAction_def logged_def)

lemma executeAction_eq:
  "executeAction ty code sim = sim\<lparr>action_log := action_log sim @ logged ty code\<rparr>"
  by (simp add: executeAction_def logAction_eq logged_def)

lemma deref_frame:
  "states s' = states s \<Longrightarrow> states_epoch s' = states_epoch s \<Longrightarrow> deref p s' = deref p s"
  by (simp add: deref_def)

lemma deref_update [simp]:
  "deref p (state_map_update f1 s) = deref p s"
  "deref p (transitions_update f2 s) = deref p s"
  "deref p (current_tick_update f3 s) = deref p s"
  "deref p (current_state_path_update f4 s) = deref p s"
  "deref p (variables_update f5 s) = deref p s"
  "deref p (initial_variables_update f6 s) = deref p s"
  "deref p (action_log_update f7 s) = deref p s"
  "deref p (pending_transition_update f8 s) = deref p s"
  "deref p (internal_event_queue_update f9 s) = deref p s"
  by (simp_all add: deref_def)

lemma find_transition_frame:
  "states s' = states s \<Longrightarrow> states_epoch s' = states_epoch s \<Longrightarrow>
   find_transition ts p ev s' = find_transition ts p ev s"
  by (induction ts) (simp_all add: deref_frame [of s' s] split: sum.splits)

lemma find_transition_eq:
  "deref p sim = Inr leaf \<Longrightarrow> find_transition ts p ev sim = Inr (find (matches leaf ev) ts)"
  by (induction ts) (simp_all add: matches_def)

lemma enterState_eq:
  "enterState p sim =
     (case deref p sim of
        Inl e \<Rightarrow> Inl e
      | Inr st \<Rightarrow>
          Inr (sim\<lparr>current_state_path := current_state_path sim @ [p],
                   action_log := action_log sim @ logged ''ENTRY_STATE'' (entry_action st)\<rparr>))"
  by (simp add: enterState_def executeAction_eq split: sum.splits)

text \<open>What \<^verbatim>\<open>executeTransition\<close> does from a state that is there to be left.\<close>

lemma executeTransition_eq:
  assumes "current_state_path sim \<noteq> []"
    and "deref (last (current_state_path sim)) sim = Inr cur"
  shows "executeTransition tr sim =
    (case state_map sim (target tr) of
       None \<Rightarrow>
         Inr (sim\<lparr>action_log := action_log sim @ logged ''EXIT_STATE'' (exit_action cur)
                      @ logged ''TRANSITION_ACTION'' (action tr),
                  current_state_path := butlast (current_state_path sim),
                  state_map := (state_map sim)(target tr \<mapsto> None)\<rparr>)
     | Some None \<Rightarrow>
         Inr (sim\<lparr>action_log := action_log sim @ logged ''EXIT_STATE'' (exit_action cur)
                      @ logged ''TRANSITION_ACTION'' (action tr),
                  current_state_path := butlast (current_state_path sim)\<rparr>)
     | Some (Some p) \<Rightarrow>
        (case deref p sim of
           Inl e \<Rightarrow> Inl e
         | Inr tgt \<Rightarrow>
             Inr (sim\<lparr>action_log := action_log sim @ logged ''EXIT_STATE'' (exit_action cur)
                          @ logged ''TRANSITION_ACTION'' (action tr)
                          @ logged ''ENTRY_STATE'' (entry_action tgt),
                      current_state_path := butlast (current_state_path sim) @ [p]\<rparr>)))"
  using assms
  by (simp add: executeTransition_def executeAction_eq enterState_eq
      split: option.splits sum.splits)

lemma executeTransition_frame:
  assumes "executeTransition tr sim = Inr sim'"
  shows "states sim' = states sim \<and> states_epoch sim' = states_epoch sim
       \<and> transitions sim' = transitions sim \<and> current_tick sim' = current_tick sim
       \<and> variables sim' = variables sim \<and> initial_variables sim' = initial_variables sim
       \<and> pending_transition sim' = pending_transition sim
       \<and> internal_event_queue sim' = internal_event_queue sim
       \<and> length (current_state_path sim') \<le> length (current_state_path sim)"
proof -
  from assms have ne: "current_state_path sim \<noteq> []"
    by (auto simp: executeTransition_def split: if_splits)
  with assms obtain cur where cur: "deref (last (current_state_path sim)) sim = Inr cur"
    by (cases "deref (last (current_state_path sim)) sim") (simp_all add: executeTransition_def)
  show ?thesis
    using assms ne unfolding executeTransition_eq [OF ne cur]
    by (auto split: option.splits sum.splits)
qed

subsection \<open>The loop of step\<close>

lemma step_loop_Nil: "internal_event_queue sim = [] \<Longrightarrow> step_loop ev sim = Inr sim"
  by (simp add: step_loop.simps)

lemma step_loop_unfold:
  assumes "internal_event_queue sim = e # rest"
  shows "step_loop ev sim =
    (if current_state_path sim = [] then Inl Back_of_empty
     else case find_transition (transitions sim) (last (current_state_path sim)) e sim of
       Inl err \<Rightarrow> Inl err
     | Inr None \<Rightarrow> step_loop ev (sim\<lparr>internal_event_queue := rest,
                                      current_tick := tick_rule ev (current_tick sim)\<rparr>)
     | Inr (Some tr) \<Rightarrow>
         if condition tr \<noteq> []
         then Inr (sim\<lparr>internal_event_queue := rest,
                       current_tick := tick_rule ev (current_tick sim),
                       action_log := action_log sim @ [Log_entry ''AWAIT_CONDITION'' (condition tr)],
                       pending_transition := Some tr\<rparr>)
         else executeTransition tr (sim\<lparr>internal_event_queue := rest,
                                        current_tick := tick_rule ev (current_tick sim)\<rparr>))"
proof -
  have f: "find_transition ts p e
             (sim\<lparr>internal_event_queue := rest, current_tick := current_tick sim + 1\<rparr>)
           = find_transition ts p e sim"
          "find_transition ts p e (sim\<lparr>internal_event_queue := rest\<rparr>)
           = find_transition ts p e sim" for ts p
    by (rule find_transition_frame; simp)+
  show ?thesis
    using assms
    by (subst step_loop.simps)
       (simp add: Let_def tick_rule_def logAction_eq logged_def f
          split: sum.splits option.splits)
qed

lemma step_loop_Cons:
  assumes "internal_event_queue sim = e # rest"
    and "current_state_path sim \<noteq> []"
    and "deref (last (current_state_path sim)) sim = Inr cur"
  shows "step_loop ev sim =
    (case find (matches cur e) (transitions sim) of
       None \<Rightarrow> step_loop ev (sim\<lparr>internal_event_queue := rest,
                                  current_tick := tick_rule ev (current_tick sim)\<rparr>)
     | Some tr \<Rightarrow>
         if condition tr \<noteq> []
         then Inr (sim\<lparr>internal_event_queue := rest,
                       current_tick := tick_rule ev (current_tick sim),
                       action_log := action_log sim @ [Log_entry ''AWAIT_CONDITION'' (condition tr)],
                       pending_transition := Some tr\<rparr>)
         else executeTransition tr (sim\<lparr>internal_event_queue := rest,
                                        current_tick := tick_rule ev (current_tick sim)\<rparr>))"
  using assms(2)
  by (simp add: step_loop_unfold [OF assms(1)] find_transition_eq [OF assms(3)]
      split: option.splits)

lemma step_loop_skip:
  assumes "current_state_path sim \<noteq> []"
    and "deref (last (current_state_path sim)) sim = Inr cur"
    and "internal_event_queue sim = pre @ q"
    and "\<forall>x\<in>set pre. find (matches cur x) (transitions sim) = None"
  shows "step_loop ev sim =
         step_loop ev (sim\<lparr>internal_event_queue := q,
                           current_tick := (tick_rule ev ^^ length pre) (current_tick sim)\<rparr>)"
  using assms
proof (induction pre arbitrary: sim)
  case Nil
  from Nil.prems(3) [symmetric] show ?case by simp
next
  case (Cons x pre)
  let ?s2 = "sim\<lparr>internal_event_queue := pre @ q, current_tick := tick_rule ev (current_tick sim)\<rparr>"
  have "step_loop ev sim = step_loop ev ?s2"
    using Cons.prems by (simp add: step_loop_Cons [where e = x and rest = "pre @ q" and cur = cur])
  also have "\<dots> = step_loop ev (?s2\<lparr>internal_event_queue := q,
                           current_tick := (tick_rule ev ^^ length pre) (current_tick ?s2)\<rparr>)"
    using Cons.prems by (intro Cons.IH) simp_all
  finally show ?case by (simp add: funpow_swap1)
qed

lemma step_loop_frame:
  "step_loop ev sim = Inr sim' \<Longrightarrow>
     states sim' = states sim \<and> states_epoch sim' = states_epoch sim
   \<and> transitions sim' = transitions sim
   \<and> variables sim' = variables sim \<and> initial_variables sim' = initial_variables sim
   \<and> length (current_state_path sim') \<le> length (current_state_path sim)"
proof (induction q \<equiv> "internal_event_queue sim" arbitrary: sim)
  case Nil
  then show ?case by (simp add: step_loop_Nil)
next
  case (Cons e rest)
  let ?s2 = "sim\<lparr>internal_event_queue := rest, current_tick := tick_rule ev (current_tick sim)\<rparr>"
  note u = step_loop_unfold [OF Cons.hyps(2) [symmetric], of ev]
  from Cons.prems u have ne: "current_state_path sim \<noteq> []"
    by (auto split: if_splits)
  show ?case
  proof (cases "find_transition (transitions sim) (last (current_state_path sim)) e sim")
    case (Inl err)
    with Cons.prems u ne show ?thesis by simp
  next
    case (Inr found)
    show ?thesis
    proof (cases found)
      case None
      with Inr Cons.prems u ne have "step_loop ev ?s2 = Inr sim'" by simp
      from Cons.hyps(1) [OF _ this] show ?thesis by simp
    next
      case (Some tr)
      show ?thesis
      proof (cases "condition tr = []")
        case True
        with Some Inr Cons.prems u ne have "executeTransition tr ?s2 = Inr sim'" by simp
        from executeTransition_frame [OF this] show ?thesis by simp
      next
        case False
        with Some Inr Cons.prems u ne show ?thesis by auto
      qed
    qed
  qed
qed

lemma step_loop_tick:
  "step_loop ev sim = Inr sim' \<Longrightarrow> ev \<noteq> [] \<Longrightarrow>
     length (internal_event_queue sim') \<le> length (internal_event_queue sim)
   \<and> current_tick sim' = current_tick sim
        + of_nat (length (internal_event_queue sim) - length (internal_event_queue sim'))"
proof (induction q \<equiv> "internal_event_queue sim" arbitrary: sim)
  case Nil
  then show ?case by (simp add: step_loop_Nil)
next
  case (Cons e rest)
  let ?s2 = "sim\<lparr>internal_event_queue := rest, current_tick := tick_rule ev (current_tick sim)\<rparr>"
  note u = step_loop_unfold [OF Cons.hyps(2) [symmetric], of ev]
  note q = Cons.hyps(2) [symmetric]
  from Cons.prems u have ne: "current_state_path sim \<noteq> []"
    by (auto split: if_splits)
  have t: "tick_rule ev (current_tick sim) = current_tick sim + 1"
    using Cons.prems(2) by (simp add: tick_rule_def)
  show ?case
  proof (cases "find_transition (transitions sim) (last (current_state_path sim)) e sim")
    case (Inl err)
    with Cons.prems u ne show ?thesis by simp
  next
    case (Inr found)
    show ?thesis
    proof (cases found)
      case None
      with Inr Cons.prems u ne have "step_loop ev ?s2 = Inr sim'" by simp
      from Cons.hyps(1) [OF _ this Cons.prems(2)] show ?thesis
        by (simp add: q t Suc_diff_le)
    next
      case (Some tr)
      show ?thesis
      proof (cases "condition tr = []")
        case True
        with Some Inr Cons.prems u ne have "executeTransition tr ?s2 = Inr sim'" by simp
        from executeTransition_frame [OF this] show ?thesis by (simp add: q t)
      next
        case False
        with Some Inr Cons.prems u ne show ?thesis by (auto simp: q t)
      qed
    qed
  qed
qed

lemma step_loop_dequeues:
  "step_loop ev sim = Inr sim' \<Longrightarrow> internal_event_queue sim \<noteq> [] \<Longrightarrow>
     length (internal_event_queue sim') < length (internal_event_queue sim)"
proof (induction q \<equiv> "internal_event_queue sim" arbitrary: sim)
  case Nil
  then show ?case by simp
next
  case (Cons e rest)
  let ?s2 = "sim\<lparr>internal_event_queue := rest, current_tick := tick_rule ev (current_tick sim)\<rparr>"
  note u = step_loop_unfold [OF Cons.hyps(2) [symmetric], of ev]
  note q = Cons.hyps(2) [symmetric]
  from Cons.prems u have ne: "current_state_path sim \<noteq> []"
    by (auto split: if_splits)
  show ?case
  proof (cases "find_transition (transitions sim) (last (current_state_path sim)) e sim")
    case (Inl err)
    with Cons.prems u ne show ?thesis by simp
  next
    case (Inr found)
    show ?thesis
    proof (cases found)
      case None
      with Inr Cons.prems u ne have l: "step_loop ev ?s2 = Inr sim'" by simp
      show ?thesis
      proof (cases "rest = []")
        case True
        with l show ?thesis by (auto simp: step_loop_Nil q)
      next
        case False
        with Cons.hyps(1) [OF _ l] show ?thesis by (simp add: q)
      qed
    next
      case (Some tr)
      show ?thesis
      proof (cases "condition tr = []")
        case True
        with Some Inr Cons.prems u ne have "executeTransition tr ?s2 = Inr sim'" by simp
        from executeTransition_frame [OF this] show ?thesis by (simp add: q)
      next
        case False
        with Some Inr Cons.prems u ne show ?thesis by (auto simp: q)
      qed
    qed
  qed
qed

lemma step_to_loop:
  assumes "current_state_path sim \<noteq> []"
    and "deref (last (current_state_path sim)) sim = Inr cur"
  shows "ev \<noteq> [] \<Longrightarrow> step ev sim =
           step_loop ev (sim\<lparr>action_log := [],
                             internal_event_queue := internal_event_queue sim @ [ev]\<rparr>)"
    and "step [] sim =
           step_loop [] (sim\<lparr>current_tick := current_tick sim + 1,
                             action_log := logged ''DURING_ACTION'' (during_action cur)\<rparr>)"
  using assms by (simp_all add: step_def executeAction_eq)

lemma step_loop_until_match:
  assumes ne: "current_state_path sim \<noteq> []"
    and cur: "deref (last (current_state_path sim)) sim = Inr cur"
    and q: "internal_event_queue sim = pre @ e # rest"
    and pre: "\<forall>x\<in>set pre. find (matches cur x) (transitions sim) = None"
    and tr: "find (matches cur e) (transitions sim) = Some tr"
  shows "\<exists>t. step_loop ev sim =
     (if condition tr \<noteq> []
      then Inr (sim\<lparr>internal_event_queue := rest, current_tick := t,
                    action_log := action_log sim @ [Log_entry ''AWAIT_CONDITION'' (condition tr)],
                    pending_transition := Some tr\<rparr>)
      else executeTransition tr (sim\<lparr>internal_event_queue := rest, current_tick := t\<rparr>))"
proof -
  let ?t1 = "(tick_rule ev ^^ length pre) (current_tick sim)"
  let ?s1 = "sim\<lparr>internal_event_queue := e # rest, current_tick := ?t1\<rparr>"
  have "step_loop ev sim = step_loop ev ?s1"
    using ne cur q pre by (rule step_loop_skip)
  also have "\<dots> =
     (if condition tr \<noteq> []
      then Inr (sim\<lparr>internal_event_queue := rest, current_tick := tick_rule ev ?t1,
                    action_log := action_log sim @ [Log_entry ''AWAIT_CONDITION'' (condition tr)],
                    pending_transition := Some tr\<rparr>)
      else executeTransition tr
             (sim\<lparr>internal_event_queue := rest, current_tick := tick_rule ev ?t1\<rparr>))"
    using ne cur tr
    by (subst step_loop_Cons [where e = e and rest = rest and cur = cur]) simp_all
  finally show ?thesis by blast
qed

text \<open>A step from a current state, up to the first event that matches a transition: the
  events before it are dropped, and the state \<open>s0\<close> in which the transition is met differs
  from the one of the call in the log, the queue and the tick.\<close>

lemma step_until_match:
  assumes ne: "current_state_path sim \<noteq> []"
    and cur: "deref (last (current_state_path sim)) sim = Inr cur"
    and q: "(if ev \<noteq> [] then internal_event_queue sim @ [ev]
             else internal_event_queue sim) = pre @ e # rest"
    and pre: "\<forall>x\<in>set pre. find (matches cur x) (transitions sim) = None"
    and tr: "find (matches cur e) (transitions sim) = Some tr"
  obtains s0 where "states s0 = states sim" and "states_epoch s0 = states_epoch sim"
      and "state_map s0 = state_map sim" and "transitions s0 = transitions sim"
      and "current_state_path s0 = current_state_path sim"
      and "variables s0 = variables sim" and "initial_variables s0 = initial_variables sim"
      and "pending_transition s0 = pending_transition sim"
      and "action_log s0 = logged ''DURING_ACTION'' (if ev = [] then during_action cur else [])"
      and "internal_event_queue s0 = rest"
      and "step ev sim =
          (if condition tr \<noteq> []
           then Inr (s0\<lparr>action_log := action_log s0 @ [Log_entry ''AWAIT_CONDITION'' (condition tr)],
                        pending_transition := Some tr\<rparr>)
           else executeTransition tr s0)"
proof -
  define l where "l = (if ev = [] then
      sim\<lparr>current_tick := current_tick sim + 1,
          action_log := logged ''DURING_ACTION'' (during_action cur)\<rparr>
    else sim\<lparr>action_log := [], internal_event_queue := internal_event_queue sim @ [ev]\<rparr>)"
  have s: "step ev sim = step_loop ev l"
    using step_to_loop [OF ne cur] by (simp add: l_def)
  have "current_state_path l \<noteq> []" "deref (last (current_state_path l)) l = Inr cur"
    "internal_event_queue l = pre @ e # rest"
    "\<forall>x\<in>set pre. find (matches cur x) (transitions l) = None"
    "find (matches cur e) (transitions l) = Some tr"
    using assms by (auto simp: l_def split: if_splits)
  from step_loop_until_match [OF this, of ev]
  obtain t where t: "step_loop ev l =
     (if condition tr \<noteq> []
      then Inr (l\<lparr>internal_event_queue := rest, current_tick := t,
                  action_log := action_log l @ [Log_entry ''AWAIT_CONDITION'' (condition tr)],
                  pending_transition := Some tr\<rparr>)
      else executeTransition tr (l\<lparr>internal_event_queue := rest, current_tick := t\<rparr>))"
    by blast
  let ?s0 = "l\<lparr>internal_event_queue := rest, current_tick := t\<rparr>"
  have "step ev sim =
          (if condition tr \<noteq> []
           then Inr (?s0\<lparr>action_log := action_log ?s0 @ [Log_entry ''AWAIT_CONDITION'' (condition tr)],
                        pending_transition := Some tr\<rparr>)
           else executeTransition tr ?s0)"
    using s t by simp
  moreover have "states ?s0 = states sim" "states_epoch ?s0 = states_epoch sim"
    "state_map ?s0 = state_map sim" "transitions ?s0 = transitions sim"
    "current_state_path ?s0 = current_state_path sim"
    "variables ?s0 = variables sim" "initial_variables ?s0 = initial_variables sim"
    "pending_transition ?s0 = pending_transition sim"
    "action_log ?s0 = logged ''DURING_ACTION'' (if ev = [] then during_action cur else [])"
    "internal_event_queue ?s0 = rest"
    by (simp_all add: l_def logged_def)
  ultimately show ?thesis by (rule that [of ?s0, rotated -1])
qed

lemma step_halted:
  "current_state_path sim = [] \<Longrightarrow>
   step ev sim =
     Inr (sim\<lparr>action_log := [],
              internal_event_queue :=
                (if ev \<noteq> [] then internal_event_queue sim @ [ev] else internal_event_queue sim)\<rparr>)"
  by (simp add: step_def)

lemma step_frame:
  assumes "step ev sim = Inr sim'"
  shows "states sim' = states sim \<and> states_epoch sim' = states_epoch sim
   \<and> transitions sim' = transitions sim
   \<and> variables sim' = variables sim \<and> initial_variables sim' = initial_variables sim
   \<and> length (current_state_path sim') \<le> length (current_state_path sim)"
proof (cases "current_state_path sim = []")
  case True
  from assms show ?thesis unfolding step_halted [OF True] by auto
next
  case False
  show ?thesis
  proof (cases "ev = []")
    case True
    with assms False obtain cur where "deref (last (current_state_path sim)) sim = Inr cur"
      by (cases "deref (last (current_state_path sim)) sim") (simp_all add: step_def)
    from step_to_loop(2) [OF False this] assms True
    have "step_loop [] (sim\<lparr>current_tick := current_tick sim + 1,
                             action_log := logged ''DURING_ACTION'' (during_action cur)\<rparr>) = Inr sim'"
      by simp
    from step_loop_frame [OF this] show ?thesis by simp
  next
    case ev: False
    with assms False
    have "step_loop ev (sim\<lparr>action_log := [],
                             internal_event_queue := internal_event_queue sim @ [ev]\<rparr>) = Inr sim'"
      by (simp add: step_def)
    from step_loop_frame [OF this] show ?thesis by simp
  qed
qed

lemma resolve_condition_frame:
  assumes "resolve_condition verdict sim = Inr sim'"
  shows "states sim' = states sim \<and> states_epoch sim' = states_epoch sim
   \<and> transitions sim' = transitions sim \<and> current_tick sim' = current_tick sim
   \<and> variables sim' = variables sim \<and> initial_variables sim' = initial_variables sim
   \<and> internal_event_queue sim' = internal_event_queue sim
   \<and> length (current_state_path sim') \<le> length (current_state_path sim)"
proof (cases "pending_transition sim")
  case None
  with assms show ?thesis by (auto simp: resolve_condition_def)
next
  case (Some tr)
  show ?thesis
  proof (cases verdict)
    case False
    with assms Some show ?thesis by (auto simp: resolve_condition_def logAction_eq)
  next
    case True
    with assms Some obtain s2 where e: "executeTransition tr (sim\<lparr>action_log := []\<rparr>) = Inr s2"
      and s: "sim' = s2\<lparr>pending_transition := None\<rparr>"
      by (auto simp: resolve_condition_def split: sum.splits)
    from executeTransition_frame [OF e] s show ?thesis by simp
  qed
qed

subsection \<open>What a load leaves alone\<close>

lemma load_states_frame:
  "load_states js sim = (r, s') \<Longrightarrow>
     states_epoch s' = states_epoch sim \<and> state_map s' = state_map sim
   \<and> transitions s' = transitions sim \<and> current_tick s' = current_tick sim
   \<and> current_state_path s' = current_state_path sim \<and> variables s' = variables sim
   \<and> initial_variables s' = initial_variables sim \<and> action_log s' = action_log sim
   \<and> pending_transition s' = pending_transition sim
   \<and> internal_event_queue s' = internal_event_queue sim"
proof (induction js arbitrary: sim)
  case Nil
  then show ?case by simp
next
  case (Cons j js)
  show ?case
  proof (cases "state_of_json j")
    case (Inl e)
    with Cons.prems show ?thesis by simp
  next
    case (Inr st)
    with Cons.prems have "load_states js (sim\<lparr>states := states sim @ [st]\<rparr>) = (r, s')"
      by simp
    from Cons.IH [OF this] show ?thesis by simp
  qed
qed

lemma map_states_frame:
  "states (map_states i xs sim) = states sim
   \<and> states_epoch (map_states i xs sim) = states_epoch sim
   \<and> transitions (map_states i xs sim) = transitions sim
   \<and> current_tick (map_states i xs sim) = current_tick sim
   \<and> current_state_path (map_states i xs sim) = current_state_path sim
   \<and> variables (map_states i xs sim) = variables sim
   \<and> initial_variables (map_states i xs sim) = initial_variables sim
   \<and> action_log (map_states i xs sim) = action_log sim
   \<and> pending_transition (map_states i xs sim) = pending_transition sim
   \<and> internal_event_queue (map_states i xs sim) = internal_event_queue sim"
  by (induction xs arbitrary: i sim) simp_all

lemma load_transitions_frame:
  "load_transitions js sim = (r, s') \<Longrightarrow>
     states s' = states sim \<and> states_epoch s' = states_epoch sim
   \<and> state_map s' = state_map sim \<and> current_tick s' = current_tick sim
   \<and> current_state_path s' = current_state_path sim \<and> variables s' = variables sim
   \<and> initial_variables s' = initial_variables sim \<and> action_log s' = action_log sim
   \<and> pending_transition s' = pending_transition sim
   \<and> internal_event_queue s' = internal_event_queue sim"
proof (induction js arbitrary: sim)
  case Nil
  then show ?case by simp
next
  case (Cons j js)
  show ?case
  proof (cases "transition_of_json j")
    case (Inl e)
    with Cons.prems show ?thesis by simp
  next
    case (Inr t)
    with Cons.prems have "load_transitions js (sim\<lparr>transitions := transitions sim @ [t]\<rparr>) = (r, s')"
      by simp
    from Cons.IH [OF this] show ?thesis by simp
  qed
qed

lemma loadFromJson_frame:
  assumes "loadFromJson doc sim = (r, s')"
  shows "states_epoch s' = Suc (states_epoch sim) \<and> current_tick s' = current_tick sim
   \<and> current_state_path s' = current_state_path sim \<and> variables s' = variables sim
   \<and> initial_variables s' = initial_variables sim \<and> action_log s' = action_log sim
   \<and> pending_transition s' = pending_transition sim
   \<and> internal_event_queue s' = internal_event_queue sim"
proof -
  let ?s1 = "sim\<lparr>states := [], states_epoch := Suc (states_epoch sim),
                 state_map := Map.empty, transitions := []\<rparr>"
  show ?thesis
  proof (cases doc)
    case None
    with assms show ?thesis by (auto simp: loadFromJson_def)
  next
    case (Some data)
    show ?thesis
    proof (cases "json_subscript data ''states''")
      case (Inl e)
      with assms Some show ?thesis by (auto simp: loadFromJson_def)
    next
      case (Inr ss)
      obtain r2 s2 where l2: "load_states (json_elements ss) ?s1 = (r2, s2)"
        by (cases "load_states (json_elements ss) ?s1")
      note f2 = load_states_frame [OF l2]
      show ?thesis
      proof (cases r2)
        case (Some e)
        with assms \<open>doc = Some data\<close> Inr l2 have "s' = s2"
          by (simp add: loadFromJson_def)
        with f2 show ?thesis by simp
      next
        case None
        let ?s3 = "map_states 0 (states s2) s2"
        note f3 = map_states_frame [of 0 "states s2" s2]
        show ?thesis
        proof (cases "json_subscript data ''transitions''")
          case (Inl e)
          with assms \<open>doc = Some data\<close> Inr l2 None have "s' = ?s3"
            by (simp add: loadFromJson_def)
          with f2 f3 show ?thesis by simp
        next
          case ts: (Inr ts)
          with assms \<open>doc = Some data\<close> Inr l2 None
          have "load_transitions (json_elements ts) ?s3 = (r, s')"
            by (simp add: loadFromJson_def)
          from load_transitions_frame [OF this] f2 f3 show ?thesis by simp
        qed
      qed
    qed
  qed
qed

lemma load_fsm_from_json_frame:
  assumes "load_fsm_from_json doc sim = (ok, s')"
  shows "states_epoch s' = Suc (states_epoch sim) \<and> current_tick s' = current_tick sim
   \<and> current_state_path s' = current_state_path sim \<and> variables s' = variables sim
   \<and> initial_variables s' = initial_variables sim \<and> action_log s' = action_log sim
   \<and> pending_transition s' = pending_transition sim
   \<and> internal_event_queue s' = internal_event_queue sim"
proof -
  obtain r where "loadFromJson doc sim = (r, s')"
    using assms by (cases "loadFromJson doc sim") (auto simp: load_fsm_from_json_def split: option.splits)
  then show ?thesis by (rule loadFromJson_frame)
qed

subsection \<open>Resets, initial variables and runs\<close>

lemma find_initial_bound:
  "find_initial i xs = Some j \<Longrightarrow> i \<le> j \<and> j < i + length xs"
proof (induction xs arbitrary: i)
  case Nil
  then show ?case by simp
next
  case (Cons x xs)
  show ?case
  proof (cases "is_initial x")
    case True
    with Cons.prems show ?thesis by simp
  next
    case False
    with Cons.prems have "find_initial (Suc i) xs = Some j" by simp
    from Cons.IH [OF this] show ?thesis by simp
  qed
qed

lemma store_items_eq:
  "\<exists>m. store_items dump kvs sim = sim\<lparr>initial_variables := m\<rparr>"
proof (induction kvs arbitrary: sim)
  case Nil
  have "store_items dump [] sim = sim\<lparr>initial_variables := initial_variables sim\<rparr>"
    by simp
  then show ?case by blast
next
  case (Cons kv kvs)
  obtain k v where kv: "kv = (k, v)" by (cases kv)
  from Cons [of "sim\<lparr>initial_variables := (initial_variables sim)(k \<mapsto> dump v)\<rparr>"]
  obtain m where "store_items dump kvs (sim\<lparr>initial_variables := (initial_variables sim)(k \<mapsto> dump v)\<rparr>)
      = sim\<lparr>initial_variables := m\<rparr>"
    by auto
  then have "store_items dump (kv # kvs) sim = sim\<lparr>initial_variables := m\<rparr>"
    by (simp add: kv)
  then show ?case by blast
qed

lemma setInitialVariables_eq:
  "\<exists>m. setInitialVariables dump (Some data) sim = Inr (sim\<lparr>initial_variables := m\<rparr>)"
proof -
  from store_items_eq [of dump "json_items data" "sim\<lparr>initial_variables := Map.empty\<rparr>"]
  obtain m where "store_items dump (json_items data) (sim\<lparr>initial_variables := Map.empty\<rparr>)
      = sim\<lparr>initial_variables := m\<rparr>"
    by auto
  then have "setInitialVariables dump (Some data) sim = Inr (sim\<lparr>initial_variables := m\<rparr>)"
    by (simp add: setInitialVariables_def)
  then show ?thesis by blast
qed

text \<open>\<^verbatim>\<open>reset\<close> always returns: the state it enters is one of the vector.\<close>

lemma reset_eq:
  "\<exists>p l. reset sim =
     Inr (sim\<lparr>current_tick := 0, current_state_path := p, variables := initial_variables sim,
              action_log := l, pending_transition := None, internal_event_queue := []\<rparr>)
     \<and> length p \<le> 1"
proof (cases "find_initial 0 (states sim)")
  case None
  show ?thesis
  proof (cases "states sim = []")
    case True
    have "reset sim = Inr (sim\<lparr>current_tick := 0, current_state_path := [],
            variables := initial_variables sim,
            action_log := [], pending_transition := None, internal_event_queue := []\<rparr>)"
      using None True by (cases sim) (simp add: reset_def)
    then show ?thesis by (rule_tac x = "[]" in exI, rule_tac x = "[]" in exI) simp
  next
    case False
    have "reset sim = Inr (sim\<lparr>current_tick := 0, current_state_path := [Ptr (states_epoch sim) 0],
            variables := initial_variables sim,
            action_log := logged ''ENTRY_STATE'' (entry_action (states sim ! 0)),
            pending_transition := None, internal_event_queue := []\<rparr>)"
      using None False by (cases sim) (simp add: reset_def enterState_eq deref_def)
    then show ?thesis
      by (rule_tac x = "[Ptr (states_epoch sim) 0]" in exI,
          rule_tac x = "logged ''ENTRY_STATE'' (entry_action (states sim ! 0))" in exI) simp
  qed
next
  case (Some j)
  from find_initial_bound [OF Some] have j: "j < length (states sim)" by simp
  have "reset sim = Inr (sim\<lparr>current_tick := 0, current_state_path := [Ptr (states_epoch sim) j],
            variables := initial_variables sim,
            action_log := logged ''ENTRY_STATE'' (entry_action (states sim ! j)),
            pending_transition := None, internal_event_queue := []\<rparr>)"
    using Some j by (cases sim) (simp add: reset_def enterState_eq deref_def)
  then show ?thesis
    by (rule_tac x = "[Ptr (states_epoch sim) j]" in exI,
        rule_tac x = "logged ''ENTRY_STATE'' (entry_action (states sim ! j))" in exI) simp
qed

lemma api_call_path:
  assumes "api_call dump c sim = Inr sim'" and "length (current_state_path sim) \<le> 1"
  shows "length (current_state_path sim') \<le> 1"
proof (cases c)
  case (Load doc)
  with assms have "load_fsm_from_json doc sim = (fst (load_fsm_from_json doc sim), sim')"
    by auto
  from load_fsm_from_json_frame [OF this] assms(2) show ?thesis by simp
next
  case (Set_initial_variables doc)
  show ?thesis
  proof (cases doc)
    case None
    with assms(1) Set_initial_variables show ?thesis
      by (simp add: set_initial_variables_from_json_def setInitialVariables_def)
  next
    case (Some data)
    with assms Set_initial_variables setInitialVariables_eq [of dump data sim] show ?thesis
      by (auto simp: set_initial_variables_from_json_def)
  qed
next
  case Reset
  with assms(1) reset_eq [of sim] show ?thesis by auto
next
  case (Step ev)
  with assms step_frame [of ev sim sim'] show ?thesis by auto
next
  case (Resolve_condition v)
  with assms resolve_condition_frame [of v sim sim'] show ?thesis by auto
next
  case (Queue_internal_event e)
  with assms show ?thesis by (auto simp: queue_internal_event_def)
next
  case Get_and_clear_log
  with assms show ?thesis by (auto simp: getAndClearLogJson_def)
qed


lemma api_run_path:
  "api_run dump cs sim = Inr sim' \<Longrightarrow> length (current_state_path sim) \<le> 1 \<Longrightarrow>
   length (current_state_path sim') \<le> 1"
proof (induction cs arbitrary: sim)
  case Nil
  then show ?case by simp
next
  case (Cons c cs)
  from Cons.prems(1) obtain s where c: "api_call dump c sim = Inr s"
    and r: "api_run dump cs s = Inr sim'"
    by (cases "api_call dump c sim") simp_all
  from c Cons.prems(2) have "length (current_state_path s) \<le> 1"
    by (rule api_call_path)
  with r show ?case by (rule Cons.IH)
qed

lemma api_call_keeps_log:
  assumes "api_call dump c sim = Inr sim'" and "keeps_log c"
  shows "action_log sim' = action_log sim \<or> action_log sim' = []"
proof (cases c)
  case (Load doc)
  with assms have "load_fsm_from_json doc sim = (fst (load_fsm_from_json doc sim), sim')"
    by auto
  from load_fsm_from_json_frame [OF this] show ?thesis by simp
next
  case (Set_initial_variables doc)
  show ?thesis
  proof (cases doc)
    case None
    with assms(1) Set_initial_variables show ?thesis
      by (simp add: set_initial_variables_from_json_def setInitialVariables_def)
  next
    case (Some data)
    with assms(1) Set_initial_variables setInitialVariables_eq [of dump data sim] show ?thesis
      by (auto simp: set_initial_variables_from_json_def)
  qed
next
  case (Queue_internal_event e)
  with assms show ?thesis by (auto simp: queue_internal_event_def)
next
  case Get_and_clear_log
  with assms show ?thesis by (auto simp: getAndClearLogJson_def)
qed (use assms in simp_all)

lemma api_run_keeps_log:
  "api_run dump cs sim = Inr sim' \<Longrightarrow> \<forall>c\<in>set cs. keeps_log c \<Longrightarrow> action_log sim = [] \<Longrightarrow>
   action_log sim' = []"
proof (induction cs arbitrary: sim)
  case Nil
  then show ?case by simp
next
  case (Cons c cs)
  from Cons.prems(1) obtain s where c: "api_call dump c sim = Inr s"
    and r: "api_run dump cs s = Inr sim'"
    by (cases "api_call dump c sim") simp_all
  from api_call_keeps_log [OF c] Cons.prems(2,3) have "action_log s = []"
    by auto
  with r Cons.prems(2) show ?case by (intro Cons.IH) simp_all
qed

lemma log_accumulates:
  "action_log (foldl (\<lambda>s (ty, dat). logAction ty dat s) sim es)
     = action_log sim @ concat (map (\<lambda>(ty, dat). logged ty dat) es)"
  by (induction es arbitrary: sim) (simp_all add: logAction_eq split: prod.splits)

subsection \<open>No call but reset reads the initial variables\<close>

lemma iv_out:
  "states_update f1 (initial_variables_update g s) = initial_variables_update g (states_update f1 s)"
  "states_epoch_update f2 (initial_variables_update g s) = initial_variables_update g (states_epoch_update f2 s)"
  "state_map_update f3 (initial_variables_update g s) = initial_variables_update g (state_map_update f3 s)"
  "transitions_update f4 (initial_variables_update g s) = initial_variables_update g (transitions_update f4 s)"
  "current_tick_update f5 (initial_variables_update g s) = initial_variables_update g (current_tick_update f5 s)"
  "current_state_path_update f6 (initial_variables_update g s) = initial_variables_update g (current_state_path_update f6 s)"
  "variables_update f7 (initial_variables_update g s) = initial_variables_update g (variables_update f7 s)"
  "action_log_update f8 (initial_variables_update g s) = initial_variables_update g (action_log_update f8 s)"
  "pending_transition_update f9 (initial_variables_update g s) = initial_variables_update g (pending_transition_update f9 s)"
  "internal_event_queue_update f10 (initial_variables_update g s) = initial_variables_update g (internal_event_queue_update f10 s)"
  by (cases s; simp)+

lemma executeTransition_snapshot:
  "executeTransition tr (sim\<lparr>initial_variables := x\<rparr>)
     = map_sum id (\<lambda>s. s\<lparr>initial_variables := x\<rparr>) (executeTransition tr sim)"
  by (simp add: executeTransition_def executeAction_eq enterState_eq iv_out Let_def
      split: sum.splits option.splits)

lemma step_loop_snapshot:
  "step_loop ev (sim\<lparr>initial_variables := x\<rparr>)
     = map_sum id (\<lambda>s. s\<lparr>initial_variables := x\<rparr>) (step_loop ev sim)"
proof (induction q \<equiv> "internal_event_queue sim" arbitrary: sim)
  case Nil
  then show ?case by (simp add: step_loop_Nil)
next
  case (Cons e rest)
  note q = Cons.hyps(2) [symmetric]
  have q': "internal_event_queue (sim\<lparr>initial_variables := x\<rparr>) = e # rest"
    using q by simp
  have f: "find_transition ts p e (sim\<lparr>initial_variables := x\<rparr>) = find_transition ts p e sim"
    for ts p
    by (rule find_transition_frame) simp_all
  let ?s2 = "sim\<lparr>internal_event_queue := rest, current_tick := tick_rule ev (current_tick sim)\<rparr>"
  have ih: "step_loop ev (?s2\<lparr>initial_variables := x\<rparr>)
     = map_sum id (\<lambda>s. s\<lparr>initial_variables := x\<rparr>) (step_loop ev ?s2)"
    by (rule Cons.hyps(1)) simp
  show ?case
    unfolding step_loop_unfold [OF q] step_loop_unfold [OF q']
    using ih
    by (simp add: f iv_out executeTransition_snapshot [symmetric]
        split: sum.splits option.splits)
qed


lemma step_snapshot:
  "step ev (sim\<lparr>initial_variables := x\<rparr>)
     = map_sum id (\<lambda>s. s\<lparr>initial_variables := x\<rparr>) (step ev sim)"
  by (simp add: step_def executeAction_eq iv_out step_loop_snapshot Let_def split: sum.splits)

lemma resolve_condition_snapshot:
  "resolve_condition verdict (sim\<lparr>initial_variables := x\<rparr>)
     = map_sum id (\<lambda>s. s\<lparr>initial_variables := x\<rparr>) (resolve_condition verdict sim)"
  by (simp add: resolve_condition_def logAction_eq iv_out executeTransition_snapshot Let_def
      split: sum.splits option.splits)

lemma load_states_snapshot:
  "load_states js (sim\<lparr>initial_variables := x\<rparr>)
     = map_prod id (\<lambda>s. s\<lparr>initial_variables := x\<rparr>) (load_states js sim)"
  by (induction js arbitrary: sim) (simp_all add: iv_out split: sum.splits)

lemma map_states_snapshot:
  "map_states i xs (sim\<lparr>initial_variables := x\<rparr>) = (map_states i xs sim)\<lparr>initial_variables := x\<rparr>"
  by (induction xs arbitrary: i sim) (simp_all add: iv_out)

lemma load_transitions_snapshot:
  "load_transitions js (sim\<lparr>initial_variables := x\<rparr>)
     = map_prod id (\<lambda>s. s\<lparr>initial_variables := x\<rparr>) (load_transitions js sim)"
  by (induction js arbitrary: sim) (simp_all add: iv_out split: sum.splits)

lemma loadFromJson_snapshot:
  "loadFromJson doc (sim\<lparr>initial_variables := x\<rparr>)
     = map_prod id (\<lambda>s. s\<lparr>initial_variables := x\<rparr>) (loadFromJson doc sim)"
proof (cases doc)
  case None
  then show ?thesis by (simp add: loadFromJson_def iv_out)
next
  case (Some data)
  show ?thesis
  proof (cases "json_subscript data ''states''")
    case (Inl e)
    with Some show ?thesis by (simp add: loadFromJson_def iv_out)
  next
    case (Inr ss)
    let ?s1 = "sim\<lparr>states := [], states_epoch := Suc (states_epoch sim),
                 state_map := Map.empty, transitions := []\<rparr>"
    obtain r2 s2 where l2: "load_states (json_elements ss) ?s1 = (r2, s2)"
      by (cases "load_states (json_elements ss) ?s1")
    then have l2': "load_states (json_elements ss) (?s1\<lparr>initial_variables := x\<rparr>)
        = (r2, s2\<lparr>initial_variables := x\<rparr>)"
      by (simp add: load_states_snapshot)
    show ?thesis
      using Some Inr l2 l2'
      by (simp add: loadFromJson_def iv_out map_states_snapshot load_transitions_snapshot
          Let_def split: sum.splits option.splits)
  qed
qed

lemma load_fsm_from_json_snapshot:
  "load_fsm_from_json doc (sim\<lparr>initial_variables := x\<rparr>)
     = map_prod id (\<lambda>s. s\<lparr>initial_variables := x\<rparr>) (load_fsm_from_json doc sim)"
  by (cases "loadFromJson doc sim")
     (simp add: load_fsm_from_json_def loadFromJson_snapshot split: option.splits)

lemma reset_snapshot:
  "\<exists>r. reset (sim\<lparr>initial_variables := x\<rparr>) = Inr r \<and> variables r = x"
proof -
  from reset_eq [of "sim\<lparr>initial_variables := x\<rparr>"] show ?thesis by auto
qed

subsection \<open>Steps without the transitions on the empty event\<close>

lemma tr_out:
  "states_update f1 (transitions_update g s) = transitions_update g (states_update f1 s)"
  "states_epoch_update f2 (transitions_update g s) = transitions_update g (states_epoch_update f2 s)"
  "state_map_update f3 (transitions_update g s) = transitions_update g (state_map_update f3 s)"
  "current_tick_update f5 (transitions_update g s) = transitions_update g (current_tick_update f5 s)"
  "current_state_path_update f6 (transitions_update g s) = transitions_update g (current_state_path_update f6 s)"
  "variables_update f7 (transitions_update g s) = transitions_update g (variables_update f7 s)"
  "initial_variables_update f4 (transitions_update g s) = transitions_update g (initial_variables_update f4 s)"
  "action_log_update f8 (transitions_update g s) = transitions_update g (action_log_update f8 s)"
  "pending_transition_update f9 (transitions_update g s) = transitions_update g (pending_transition_update f9 s)"
  "internal_event_queue_update f10 (transitions_update g s) = transitions_update g (internal_event_queue_update f10 s)"
  by (cases s; simp)+

lemma find_transition_named:
  assumes "e \<noteq> []" and "find_transition ts p e sim = Inr r"
  shows "find_transition (filter (\<lambda>tr. event tr \<noteq> []) ts) p e sim = Inr r"
  using assms(2)
proof (induction ts)
  case Nil
  then show ?case by simp
next
  case (Cons t ts)
  from Cons.prems obtain leaf where leaf: "deref p sim = Inr leaf"
    by (cases "deref p sim") simp_all
  show ?case
  proof (cases "source t = name leaf \<and> event t = e")
    case True
    with Cons.prems leaf assms(1) show ?thesis by simp
  next
    case False
    with Cons.prems leaf have "find_transition ts p e sim = Inr r" by auto
    from Cons.IH [OF this] False leaf show ?thesis by auto
  qed
qed

lemma executeTransition_without:
  "executeTransition tr (without_empty_events sim)
     = map_sum id without_empty_events (executeTransition tr sim)"
  by (simp add: without_empty_events_def executeTransition_def executeAction_eq enterState_eq
      tr_out Let_def split: sum.splits option.splits)

lemma step_loop_without:
  "[] \<notin> set (internal_event_queue sim) \<Longrightarrow> step_loop ev sim = Inr sim' \<Longrightarrow>
   step_loop ev (without_empty_events sim) = Inr (without_empty_events sim')
   \<and> [] \<notin> set (internal_event_queue sim')"
proof (induction q \<equiv> "internal_event_queue sim" arbitrary: sim)
  case Nil
  then show ?case by (simp add: step_loop_Nil without_empty_events_def)
next
  case (Cons e rest)
  note q = Cons.hyps(2) [symmetric]
  have q': "internal_event_queue (without_empty_events sim) = e # rest"
    using q by (simp add: without_empty_events_def)
  from Cons.prems(1) q have e: "e \<noteq> []" and rest: "[] \<notin> set rest" by auto
  let ?s2 = "sim\<lparr>internal_event_queue := rest, current_tick := tick_rule ev (current_tick sim)\<rparr>"
  have w2: "without_empty_events sim\<lparr>internal_event_queue := rest,
              current_tick := tick_rule ev (current_tick (without_empty_events sim))\<rparr>
            = without_empty_events ?s2"
    by (simp add: without_empty_events_def tr_out)
  note u = step_loop_unfold [OF q, of ev]
  note u' = step_loop_unfold [OF q', of ev]
  from Cons.prems(2) u have ne: "current_state_path sim \<noteq> []"
    by (auto split: if_splits)
  then have ne': "current_state_path (without_empty_events sim) \<noteq> []"
    by (simp add: without_empty_events_def)
  obtain found where f: "find_transition (transitions sim) (last (current_state_path sim)) e sim
      = Inr found"
    using Cons.prems(2) u ne
    by (cases "find_transition (transitions sim) (last (current_state_path sim)) e sim") simp_all
  have "find_transition (transitions (without_empty_events sim))
          (last (current_state_path (without_empty_events sim))) e (without_empty_events sim)
        = find_transition (transitions (without_empty_events sim))
          (last (current_state_path (without_empty_events sim))) e sim"
    by (rule find_transition_frame) (simp_all add: without_empty_events_def)
  also have "\<dots> = find_transition (filter (\<lambda>tr. event tr \<noteq> []) (transitions sim))
            (last (current_state_path sim)) e sim"
    by (simp add: without_empty_events_def)
  also have "\<dots> = Inr found"
    using e f by (rule find_transition_named)
  finally have f': "find_transition (transitions (without_empty_events sim))
          (last (current_state_path (without_empty_events sim))) e (without_empty_events sim)
        = Inr found" .
  show ?case
  proof (cases found)
    case None
    with f Cons.prems(2) u ne have l: "step_loop ev ?s2 = Inr sim'" by simp
    have "step_loop ev (without_empty_events ?s2) = Inr (without_empty_events sim')
       \<and> [] \<notin> set (internal_event_queue sim')"
      using rest l by (intro Cons.hyps(1)) simp_all
    with None f' ne' show ?thesis
      unfolding u' w2 by simp
  next
    case (Some tr)
    show ?thesis
    proof (cases "condition tr = []")
      case True
      with Some f Cons.prems(2) u ne have x: "executeTransition tr ?s2 = Inr sim'" by simp
      from executeTransition_frame [OF x] rest have "[] \<notin> set (internal_event_queue sim')"
        by simp
      moreover have "executeTransition tr (without_empty_events ?s2) = Inr (without_empty_events sim')"
        using x by (simp add: executeTransition_without)
      ultimately show ?thesis
        using Some True f' ne' unfolding u' w2 by simp
    next
      case False
      with Some f Cons.prems(2) u ne
      have s': "sim' = sim\<lparr>internal_event_queue := rest,
                       current_tick := tick_rule ev (current_tick sim),
                       action_log := action_log sim @ [Log_entry ''AWAIT_CONDITION'' (condition tr)],
                       pending_transition := Some tr\<rparr>"
        by simp
      show ?thesis
        using Some False f' ne' rest unfolding u' s'
        by (simp add: without_empty_events_def tr_out)
    qed
  qed
qed


lemma step_without:
  assumes "[] \<notin> set (internal_event_queue sim)" and "step ev sim = Inr sim'"
  shows "step ev (without_empty_events sim) = Inr (without_empty_events sim')
       \<and> [] \<notin> set (internal_event_queue sim')"
proof (cases "current_state_path sim = []")
  case True
  then have "current_state_path (without_empty_events sim) = []"
    by (simp add: without_empty_events_def)
  from step_halted [OF this, of ev] step_halted [OF True, of ev] assms show ?thesis
    by (auto simp: without_empty_events_def tr_out)
next
  case False
  then have ne: "current_state_path (without_empty_events sim) \<noteq> []"
    by (simp add: without_empty_events_def)
  show ?thesis
  proof (cases "ev = []")
    case True
    with assms(2) False obtain cur where cur: "deref (last (current_state_path sim)) sim = Inr cur"
      by (cases "deref (last (current_state_path sim)) sim") (simp_all add: step_def)
    then have cur': "deref (last (current_state_path (without_empty_events sim)))
        (without_empty_events sim) = Inr cur"
      by (simp add: without_empty_events_def)
    let ?l = "sim\<lparr>current_tick := current_tick sim + 1,
                  action_log := logged ''DURING_ACTION'' (during_action cur)\<rparr>"
    from step_to_loop(2) [OF False cur] assms(2) True
    have l: "step_loop [] ?l = Inr sim'" by simp
    have "[] \<notin> set (internal_event_queue ?l)" using assms(1) by simp
    from step_loop_without [OF this l]
    have "step_loop [] (without_empty_events ?l) = Inr (without_empty_events sim')"
      and n: "[] \<notin> set (internal_event_queue sim')"
      by simp_all
    moreover have "step [] (without_empty_events sim) = step_loop [] (without_empty_events ?l)"
      unfolding step_to_loop(2) [OF ne cur'] by (simp add: without_empty_events_def tr_out)
    ultimately show ?thesis using True by simp
  next
    case ev: False
    let ?l = "sim\<lparr>action_log := [], internal_event_queue := internal_event_queue sim @ [ev]\<rparr>"
    from assms(2) False ev have l: "step_loop ev ?l = Inr sim'"
      by (simp add: step_def)
    have "[] \<notin> set (internal_event_queue ?l)" using assms(1) ev by simp
    from step_loop_without [OF this l]
    have "step_loop ev (without_empty_events ?l) = Inr (without_empty_events sim')"
      and n: "[] \<notin> set (internal_event_queue sim')"
      by simp_all
    moreover have "step ev (without_empty_events sim) = step_loop ev (without_empty_events ?l)"
      using ne ev by (simp add: step_def without_empty_events_def tr_out)
    ultimately show ?thesis by simp
  qed
qed

lemma api_run_without:
  "[] \<notin> set (internal_event_queue sim) \<Longrightarrow> \<forall>c\<in>set cs. steps_named_events c \<Longrightarrow>
   api_run dump cs sim = Inr sim' \<Longrightarrow>
   api_run dump cs (without_empty_events sim) = Inr (without_empty_events sim')
   \<and> [] \<notin> set (internal_event_queue sim')"
proof (induction cs arbitrary: sim)
  case Nil
  then show ?case by simp
next
  case (Cons c cs)
  from Cons.prems(3) obtain s where c: "api_call dump c sim = Inr s"
    and r: "api_run dump cs s = Inr sim'"
    by (cases "api_call dump c sim") simp_all
  from Cons.prems(2) have k: "steps_named_events c" and ks: "\<forall>c\<in>set cs. steps_named_events c"
    by simp_all
  have "api_call dump c (without_empty_events sim) = Inr (without_empty_events s)
      \<and> [] \<notin> set (internal_event_queue s)"
  proof (cases c)
    case (Step ev)
    with c have "step ev sim = Inr s" by simp
    from step_without [OF Cons.prems(1) this] Step show ?thesis by simp
  next
    case (Queue_internal_event e)
    with c k Cons.prems(1) show ?thesis
      by (auto simp: queue_internal_event_def without_empty_events_def tr_out)
  qed (use k in simp_all)
  then have c': "api_call dump c (without_empty_events sim) = Inr (without_empty_events s)"
    and n: "[] \<notin> set (internal_event_queue s)"
    by simp_all
  from Cons.IH [OF n ks r] c' show ?case by simp
qed

subsection \<open>The example machine\<close>

lemmas example_defs = example_document_def state_A_def state_B_def on_go_def on_ask_def
  on_lost_def on_nothing_def example_sim_def

lemma example_sim_reached:
  "create_and_run no_dump [Load (Some example_document), Reset] = Inr example_sim"
  by (simp add: create_and_run_def create_fsm_def reset_def FsmSimulator_members_def
      load_fsm_from_json_def loadFromJson_def state_of_json_def transition_of_json_def
      enterState_eq deref_def logged_def example_defs)

subsection \<open>C1: a load that fails\<close>

text \<open>
  Claim C1 says that a load of a malformed document answers false and leaves the model and
  the simulation state as they were. \<^verbatim>\<open>loadFromJson\<close> clears the two vectors and the name
  map before it parses the text, and nothing restores them when the parser throws: after
  a failed load of the example machine the model is empty.
\<close>

theorem load_failure_counterexample:
  "fst (load_fsm_from_json (None :: nat document) example_sim) = False
   \<and> states (snd (load_fsm_from_json (None :: nat document) example_sim)) = []
   \<and> states example_sim = [state_A, state_B]
   \<and> transitions (snd (load_fsm_from_json (None :: nat document) example_sim)) = []
   \<and> transitions example_sim = [on_go, on_ask, on_lost, on_nothing]
   \<and> state_map (snd (load_fsm_from_json (None :: nat document) example_sim)) ''A'' = None
   \<and> state_map example_sim ''A'' = Some (Some (Ptr 1 0))"
  by (simp add: load_fsm_from_json_def loadFromJson_def example_sim_def)


text \<open>
  C1 as amended: a load whose document does not parse answers false and leaves the model
  empty. No load, failed or not, changes the path, the variables, the tick, the queue, the
  log, the pending transition or the initial variables. The pointers of the path are kept
  as they are; the states they addressed are destroyed, so they dangle until a reset.
\<close>

theorem load_failure_keeps_simulation_state:
  "load_fsm_from_json None sim =
     (False, sim\<lparr>states := [], states_epoch := Suc (states_epoch sim),
                 state_map := Map.empty, transitions := []\<rparr>)
   \<and> current_state_path (snd (load_fsm_from_json doc sim)) = current_state_path sim
   \<and> variables (snd (load_fsm_from_json doc sim)) = variables sim
   \<and> current_tick (snd (load_fsm_from_json doc sim)) = current_tick sim
   \<and> internal_event_queue (snd (load_fsm_from_json doc sim)) = internal_event_queue sim
   \<and> action_log (snd (load_fsm_from_json doc sim)) = action_log sim
   \<and> pending_transition (snd (load_fsm_from_json doc sim)) = pending_transition sim
   \<and> initial_variables (snd (load_fsm_from_json doc sim)) = initial_variables sim
   \<and> (\<forall>p\<in>set (current_state_path sim).
         ptr_epoch p \<le> states_epoch sim \<longrightarrow>
         deref p (snd (load_fsm_from_json doc sim)) = Inl Dangling_pointer)"
proof -
  obtain ok s' where l: "load_fsm_from_json doc sim = (ok, s')"
    by (cases "load_fsm_from_json doc sim")
  note f = load_fsm_from_json_frame [OF l]
  have "load_fsm_from_json None sim =
     (False, sim\<lparr>states := [], states_epoch := Suc (states_epoch sim),
                 state_map := Map.empty, transitions := []\<rparr>)"
    by (simp add: load_fsm_from_json_def loadFromJson_def)
  moreover have "deref p s' = Inl Dangling_pointer" if "ptr_epoch p \<le> states_epoch sim" for p
    using that f by (simp add: deref_def)
  ultimately show ?thesis
    using f l by simp
qed

theorem load_failure_keeps_simulation_state_witness:
  "Ptr 1 0 \<in> set (current_state_path example_sim)
   \<and> ptr_epoch (Ptr 1 0) \<le> states_epoch example_sim
   \<and> deref (Ptr 1 0) (snd (load_fsm_from_json (None :: nat document) example_sim))
       = Inl Dangling_pointer
   \<and> current_state_path (snd (load_fsm_from_json (None :: nat document) example_sim)) = [Ptr 1 0]
   \<and> fst (load_fsm_from_json (None :: nat document) example_sim) = False"
proof -
  note t = load_failure_keeps_simulation_state [of example_sim "None :: nat document"]
  have a: "Ptr 1 0 \<in> set (current_state_path example_sim)"
    and b: "ptr_epoch (Ptr 1 0) \<le> states_epoch example_sim"
    and c: "current_state_path example_sim = [Ptr 1 0]"
    by (simp_all add: example_sim_def)
  from t a b have "deref (Ptr 1 0) (snd (load_fsm_from_json (None :: nat document) example_sim))
       = Inl Dangling_pointer"
    by blast
  moreover from t
  have "current_state_path (snd (load_fsm_from_json (None :: nat document) example_sim))
      = current_state_path example_sim"
    by blast
  then have "current_state_path (snd (load_fsm_from_json (None :: nat document) example_sim)) = [Ptr 1 0]"
    by (simp only: c)
  moreover from t have "load_fsm_from_json (None :: nat document) example_sim =
     (False, example_sim\<lparr>states := [], states_epoch := Suc (states_epoch example_sim),
                 state_map := Map.empty, transitions := []\<rparr>)"
    by blast
  then have "fst (load_fsm_from_json (None :: nat document) example_sim) = False"
    by simp
  ultimately show ?thesis using a b by simp
qed

subsection \<open>C2: the tick of a step with an external event\<close>

text \<open>
  Claim C2 says that a step with a non-empty event name advances the tick by exactly one,
  however many events the call dequeues. The loop of \<^verbatim>\<open>step\<close> applies its rule at every
  event it dequeues, and with a non-empty event name the rule always increments. With an
  event \<open>x\<close> waiting in the queue of the example, \<^verbatim>\<open>step("go")\<close> dequeues \<open>x\<close>, which matches
  nothing, and then \<open>go\<close>: the tick advances by two.
\<close>

theorem step_tick_counterexample:
  "map_sum id current_tick (step ''go'' (queue_internal_event ''x'' example_sim))
     = Inr (current_tick example_sim + 2)"
  by (simp add: step_def queue_internal_event_def example_defs step_loop.simps deref_def
      executeTransition_def enterState_eq executeAction_eq logged_def)


text \<open>
  C2 as amended: a step with a non-empty event name that finds a current state advances
  the tick by one for every event the call dequeues, and it dequeues at least one; so the
  advance is exactly one when the queue was empty at the call. Without a current state the
  call returns before the loop and the tick stays.
\<close>

theorem step_tick_per_dequeued_event:
  assumes "event_name \<noteq> []" and "step event_name sim = Inr sim'"
  shows "(current_state_path sim = [] \<longrightarrow> current_tick sim' = current_tick sim)
       \<and> (current_state_path sim \<noteq> [] \<longrightarrow>
            length (internal_event_queue sim') \<le> length (internal_event_queue sim)
          \<and> current_tick sim' = current_tick sim
              + of_nat (Suc (length (internal_event_queue sim)) - length (internal_event_queue sim')))
       \<and> (current_state_path sim \<noteq> [] \<and> internal_event_queue sim = [] \<longrightarrow>
            current_tick sim' = current_tick sim + 1)"
proof (cases "current_state_path sim = []")
  case True
  with assms show ?thesis by (auto simp: step_def)
next
  case False
  let ?s2 = "sim\<lparr>action_log := [],
                  internal_event_queue := internal_event_queue sim @ [event_name]\<rparr>"
  from assms False have l: "step_loop event_name ?s2 = Inr sim'"
    by (simp add: step_def)
  from step_loop_tick [OF l assms(1)] step_loop_dequeues [OF l]
  have a: "length (internal_event_queue sim') \<le> length (internal_event_queue sim)"
    and b: "current_tick sim' = current_tick sim
              + of_nat (Suc (length (internal_event_queue sim)) - length (internal_event_queue sim'))"
    by simp_all
  from a b False show ?thesis by auto
qed


theorem step_tick_per_dequeued_event_witness:
  "''go'' \<noteq> [] \<and> current_state_path example_sim \<noteq> [] \<and> internal_event_queue example_sim = []
   \<and> map_sum id current_tick (step ''go'' example_sim) = Inr (current_tick example_sim + 1)"
proof -
  obtain s where s: "step ''go'' example_sim = Inr s"
    by (simp add: step_def example_defs step_loop.simps deref_def
      executeTransition_def enterState_eq executeAction_eq logged_def)
  have "''go'' \<noteq> []" by simp
  from step_tick_per_dequeued_event [OF this s] s show ?thesis
    by (simp add: example_sim_def)
qed

subsection \<open>C3: what a step leaves of the model\<close>

text \<open>
  Claim C3: \<^verbatim>\<open>step\<close> and \<^verbatim>\<open>resolve_condition\<close> never modify the model, also when the
  target of a transition is not a state of the model. The two vectors are indeed left as
  they are (\<open>step_frame\<close>, \<open>resolve_condition_frame\<close>). The name map is not:
  \<^verbatim>\<open>executeTransition\<close> looks the target up with the subscript of the map, which inserts
  a missing key. After \<^verbatim>\<open>step("lost")\<close> on the example the map has the key \<open>Missing\<close>,
  bound to the null pointer.
\<close>

theorem step_inserts_null_target:
  "state_map example_sim ''Missing'' = None
   \<and> map_sum id state_map (step ''lost'' example_sim)
       = Inr ((state_map example_sim)(''Missing'' \<mapsto> None))
   \<and> (state_map example_sim)(''Missing'' \<mapsto> None) \<noteq> state_map example_sim"
proof -
  have a: "state_map example_sim ''Missing'' = None"
    by (simp add: example_sim_def)
  have b: "map_sum id state_map (step ''lost'' example_sim)
       = Inr ((state_map example_sim)(''Missing'' \<mapsto> None))"
    by (simp add: step_def example_defs step_loop.simps deref_def
      executeTransition_def enterState_eq executeAction_eq logged_def)
  have "((state_map example_sim)(''Missing'' \<mapsto> None)) ''Missing'' \<noteq> state_map example_sim ''Missing''"
    by (simp add: a)
  then have c: "(state_map example_sim)(''Missing'' \<mapsto> None) \<noteq> state_map example_sim"
    by metis
  from a b c show ?thesis by simp
qed

subsection \<open>C4: a step that meets an unconditional transition\<close>

text \<open>
  Claim C4 says that an unconditional transition that matches the current state and a
  dequeued event executes once and makes its target the current state. The transition on
  \<open>lost\<close> of the example is unconditional and matches, but the model has no state of the
  name of its target: after the call the simulator has no current state.
\<close>

theorem step_unconditional_counterexample:
  "find (matches state_A ''lost'') (transitions example_sim) = Some on_lost
   \<and> condition on_lost = [] \<and> target on_lost = ''Missing''
   \<and> map_sum id current_state_path (step ''lost'' example_sim) = Inr []
   \<and> map_sum id getCurrentStateName (step ''lost'' example_sim) = Inr (Inr ''Halted'')"
  by (simp add: step_def example_defs step_loop.simps deref_def matches_def
      executeTransition_def enterState_eq executeAction_eq logged_def getCurrentStateName_def)



text \<open>
  C4 as amended: let the first transition that matches the current state and a dequeued
  event be unconditional, the events dequeued before it matching nothing. The call then
  executes it once: after the \<open>DURING_ACTION\<close> entry of a step without an external event,
  the log holds an \<open>EXIT_STATE\<close>, a \<open>TRANSITION_ACTION\<close> and an \<open>ENTRY_STATE\<close> entry, in this
  order and each only for a non-empty action, the events behind the consumed one stay in
  the queue, and the current state is the state the name map gives for the target. When
  the map gives none, nothing is logged for an entry and no current state is left.
\<close>

theorem step_takes_unconditional_transition:
  assumes "current_state_path sim \<noteq> []"
    and "deref (last (current_state_path sim)) sim = Inr cur"
    and "(if event_name \<noteq> [] then internal_event_queue sim @ [event_name]
          else internal_event_queue sim) = pre @ e # rest"
    and "\<forall>x\<in>set pre. find (matches cur x) (transitions sim) = None"
    and "find (matches cur e) (transitions sim) = Some tr"
    and "condition tr = []"
  shows "(state_map sim (target tr) = Some (Some p) \<and> deref p sim = Inr tgt \<longrightarrow>
          (\<exists>sim'. step event_name sim = Inr sim'
             \<and> action_log sim' =
                 logged ''DURING_ACTION'' (if event_name = [] then during_action cur else [])
                 @ logged ''EXIT_STATE'' (exit_action cur)
                 @ logged ''TRANSITION_ACTION'' (action tr)
                 @ logged ''ENTRY_STATE'' (entry_action tgt)
             \<and> current_state_path sim' = butlast (current_state_path sim) @ [p]
             \<and> getCurrentStateName sim' = Inr (name tgt)
             \<and> internal_event_queue sim' = rest
             \<and> pending_transition sim' = pending_transition sim))
       \<and> (state_map sim (target tr) = None \<or> state_map sim (target tr) = Some None \<longrightarrow>
          (\<exists>sim'. step event_name sim = Inr sim'
             \<and> action_log sim' =
                 logged ''DURING_ACTION'' (if event_name = [] then during_action cur else [])
                 @ logged ''EXIT_STATE'' (exit_action cur)
                 @ logged ''TRANSITION_ACTION'' (action tr)
             \<and> current_state_path sim' = butlast (current_state_path sim)
             \<and> internal_event_queue sim' = rest
             \<and> pending_transition sim' = pending_transition sim))"
proof -
  from assms(1-5) obtain s0 where "states s0 = states sim" and "states_epoch s0 = states_epoch sim"
      and "state_map s0 = state_map sim" and "transitions s0 = transitions sim"
      and "current_state_path s0 = current_state_path sim"
      and "variables s0 = variables sim" and "initial_variables s0 = initial_variables sim"
      and "pending_transition s0 = pending_transition sim"
      and "action_log s0 = logged ''DURING_ACTION'' (if event_name = [] then during_action cur else [])"
      and "internal_event_queue s0 = rest"
      and "step event_name sim =
          (if condition tr \<noteq> []
           then Inr (s0\<lparr>action_log := action_log s0 @ [Log_entry ''AWAIT_CONDITION'' (condition tr)],
                        pending_transition := Some tr\<rparr>)
           else executeTransition tr s0)"
    by (rule step_until_match)
  note s0 = this
  have d: "deref q s0 = deref q sim" for q
    using s0(1,2) by (rule deref_frame)
  have ne: "current_state_path s0 \<noteq> []"
    using assms(1) s0(5) by simp
  have cur: "deref (last (current_state_path s0)) s0 = Inr cur"
    using assms(2) s0(5) d by simp
  have s: "step event_name sim = executeTransition tr s0"
    using s0(11) assms(6) by simp
  note e = executeTransition_eq [OF ne cur, of tr]
  have a: "\<exists>sim'. step event_name sim = Inr sim'
             \<and> action_log sim' =
                 logged ''DURING_ACTION'' (if event_name = [] then during_action cur else [])
                 @ logged ''EXIT_STATE'' (exit_action cur)
                 @ logged ''TRANSITION_ACTION'' (action tr)
                 @ logged ''ENTRY_STATE'' (entry_action tgt)
             \<and> current_state_path sim' = butlast (current_state_path sim) @ [p]
             \<and> getCurrentStateName sim' = Inr (name tgt)
             \<and> internal_event_queue sim' = rest
             \<and> pending_transition sim' = pending_transition sim"
    if t: "state_map sim (target tr) = Some (Some p)" "deref p sim = Inr tgt"
  proof -
    let ?s' = "s0\<lparr>action_log := action_log s0 @ logged ''EXIT_STATE'' (exit_action cur)
                          @ logged ''TRANSITION_ACTION'' (action tr)
                          @ logged ''ENTRY_STATE'' (entry_action tgt),
                  current_state_path := butlast (current_state_path s0) @ [p]\<rparr>"
    have "step event_name sim = Inr ?s'"
      using s e t s0(3) d by simp
    moreover have "getCurrentStateName ?s' = Inr (name tgt)"
      using t(2) d by (simp add: getCurrentStateName_def)
    ultimately show ?thesis
      using s0(5,8,9,10) by simp
  qed
  have b: "\<exists>sim'. step event_name sim = Inr sim'
             \<and> action_log sim' =
                 logged ''DURING_ACTION'' (if event_name = [] then during_action cur else [])
                 @ logged ''EXIT_STATE'' (exit_action cur)
                 @ logged ''TRANSITION_ACTION'' (action tr)
             \<and> current_state_path sim' = butlast (current_state_path sim)
             \<and> internal_event_queue sim' = rest
             \<and> pending_transition sim' = pending_transition sim"
    if t: "state_map sim (target tr) = None \<or> state_map sim (target tr) = Some None"
    using t
  proof
    assume "state_map sim (target tr) = None"
    then show ?thesis using s e s0(3,5,8,9,10) by simp
  next
    assume "state_map sim (target tr) = Some None"
    then show ?thesis using s e s0(3,5,8,9,10) by simp
  qed
  from a b show ?thesis by blast
qed

theorem step_takes_unconditional_transition_witness:
  "current_state_path example_sim \<noteq> []
   \<and> find (matches state_A ''go'') (transitions example_sim) = Some on_go
   \<and> condition on_go = []
   \<and> state_map example_sim (target on_go) = Some (Some (Ptr 1 1))
   \<and> deref (Ptr 1 1) example_sim = Inr state_B
   \<and> map_sum id action_log (step ''go'' example_sim)
       = Inr [Log_entry ''EXIT_STATE'' ''leaveA'', Log_entry ''TRANSITION_ACTION'' ''move'',
              Log_entry ''ENTRY_STATE'' ''enterB'']
   \<and> map_sum id current_state_path (step ''go'' example_sim) = Inr [Ptr 1 1]
   \<and> map_sum id getCurrentStateName (step ''go'' example_sim) = Inr (Inr ''B'')"
proof -
  have h1: "current_state_path example_sim \<noteq> []"
    by (simp add: example_sim_def)
  have h2: "deref (last (current_state_path example_sim)) example_sim = Inr state_A"
    by (simp add: example_sim_def deref_def)
  have h3: "(if ''go'' \<noteq> [] then internal_event_queue example_sim @ [''go'']
      else internal_event_queue example_sim) = [] @ ''go'' # []"
    by (simp add: example_sim_def)
  have h4: "\<forall>x\<in>set []. find (matches state_A x) (transitions example_sim) = None"
    by simp
  have h5: "find (matches state_A ''go'') (transitions example_sim) = Some on_go"
    by (simp add: example_defs matches_def)
  have h6: "condition on_go = []"
    by (simp add: on_go_def)
  have h7: "state_map example_sim (target on_go) = Some (Some (Ptr 1 1))"
    by (simp add: example_defs)
  have h8: "deref (Ptr 1 1) example_sim = Inr state_B"
    by (simp add: example_sim_def deref_def)
  from step_takes_unconditional_transition [OF h1 h2 h3 h4 h5 h6, of "Ptr 1 1" state_B] h7 h8
  obtain sim' where s: "step ''go'' example_sim = Inr sim'"
    and c: "action_log sim' =
                 logged ''DURING_ACTION'' (if ''go'' = [] then during_action state_A else [])
                 @ logged ''EXIT_STATE'' (exit_action state_A)
                 @ logged ''TRANSITION_ACTION'' (action on_go)
                 @ logged ''ENTRY_STATE'' (entry_action state_B)"
       "current_state_path sim' = butlast (current_state_path example_sim) @ [Ptr 1 1]"
       "getCurrentStateName sim' = Inr (name state_B)"
    by blast
  have c1: "action_log sim' = [Log_entry ''EXIT_STATE'' ''leaveA'',
      Log_entry ''TRANSITION_ACTION'' ''move'', Log_entry ''ENTRY_STATE'' ''enterB'']"
    using c(1) by (simp add: logged_def state_A_def state_B_def on_go_def)
  have c2: "current_state_path sim' = [Ptr 1 1]"
    using c(2) by (simp add: example_sim_def)
  have c3: "getCurrentStateName sim' = Inr ''B''"
    using c(3) by (simp add: state_B_def)
  show ?thesis
    using h1 h5 h6 h7 h8 by (simp only: s c1 c2 c3 map_sum.simps id_apply simp_thms)
qed

subsection \<open>C5: a step that meets a conditional transition\<close>

text \<open>
  Claim C5: when the first transition that matches a dequeued event has a non-empty
  condition, the call logs exactly one \<open>AWAIT_CONDITION\<close> entry with the condition text,
  stores the transition as the pending one and returns with the current state unchanged;
  the event is consumed and the events behind it stay in the queue, in order. The events
  dequeued before it are those that match no transition. The log holds the entry after
  the \<open>DURING_ACTION\<close> entry that a step without an external event makes first.
\<close>

theorem step_awaits_condition:
  assumes "current_state_path sim \<noteq> []"
    and "deref (last (current_state_path sim)) sim = Inr cur"
    and "(if event_name \<noteq> [] then internal_event_queue sim @ [event_name]
          else internal_event_queue sim) = pre @ e # rest"
    and "\<forall>x\<in>set pre. find (matches cur x) (transitions sim) = None"
    and "find (matches cur e) (transitions sim) = Some tr"
    and "condition tr \<noteq> []"
  shows "\<exists>sim'. step event_name sim = Inr sim'
     \<and> action_log sim' =
         logged ''DURING_ACTION'' (if event_name = [] then during_action cur else [])
         @ [Log_entry ''AWAIT_CONDITION'' (condition tr)]
     \<and> length (filter (\<lambda>x. entry_type x = ''AWAIT_CONDITION'') (action_log sim')) = 1
     \<and> pending_transition sim' = Some tr
     \<and> current_state_path sim' = current_state_path sim
     \<and> getCurrentStateName sim' = getCurrentStateName sim
     \<and> internal_event_queue sim' = rest"
proof -
  from assms(1-5) obtain s0 where "states s0 = states sim" and "states_epoch s0 = states_epoch sim"
      and "state_map s0 = state_map sim" and "transitions s0 = transitions sim"
      and "current_state_path s0 = current_state_path sim"
      and "variables s0 = variables sim" and "initial_variables s0 = initial_variables sim"
      and "pending_transition s0 = pending_transition sim"
      and "action_log s0 = logged ''DURING_ACTION'' (if event_name = [] then during_action cur else [])"
      and "internal_event_queue s0 = rest"
      and "step event_name sim =
          (if condition tr \<noteq> []
           then Inr (s0\<lparr>action_log := action_log s0 @ [Log_entry ''AWAIT_CONDITION'' (condition tr)],
                        pending_transition := Some tr\<rparr>)
           else executeTransition tr s0)"
    by (rule step_until_match)
  note s0 = this
  have d: "deref p s0 = deref p sim" for p
    using s0(1,2) by (rule deref_frame)
  let ?s' = "s0\<lparr>action_log := action_log s0 @ [Log_entry ''AWAIT_CONDITION'' (condition tr)],
                pending_transition := Some tr\<rparr>"
  have "step event_name sim = Inr ?s'"
    using s0(11) assms(6) by simp
  moreover have "action_log ?s' =
         logged ''DURING_ACTION'' (if event_name = [] then during_action cur else [])
         @ [Log_entry ''AWAIT_CONDITION'' (condition tr)]"
    using s0(9) by simp
  moreover have "length (filter (\<lambda>x. entry_type x = ''AWAIT_CONDITION'') (action_log ?s')) = 1"
    using s0(9) by (simp add: logged_def)
  moreover have "pending_transition ?s' = Some tr" by simp
  moreover have "current_state_path ?s' = current_state_path sim"
    using s0(5) by simp
  moreover have "getCurrentStateName ?s' = getCurrentStateName sim"
    using s0(5) d by (simp add: getCurrentStateName_def)
  moreover have "internal_event_queue ?s' = rest"
    using s0(10) by simp
  ultimately show ?thesis by blast
qed


theorem step_awaits_condition_witness:
  "current_state_path (queue_internal_event ''x'' example_sim) \<noteq> []
   \<and> find (matches state_A ''x'') (transitions (queue_internal_event ''x'' example_sim)) = None
   \<and> find (matches state_A ''ask'') (transitions (queue_internal_event ''x'' example_sim))
       = Some on_ask
   \<and> condition on_ask \<noteq> []
   \<and> map_sum id action_log (step ''ask'' (queue_internal_event ''x'' example_sim))
       = Inr [Log_entry ''AWAIT_CONDITION'' ''x > 0'']
   \<and> map_sum id pending_transition (step ''ask'' (queue_internal_event ''x'' example_sim))
       = Inr (Some on_ask)
   \<and> map_sum id current_state_path (step ''ask'' (queue_internal_event ''x'' example_sim))
       = Inr [Ptr 1 0]
   \<and> map_sum id internal_event_queue (step ''ask'' (queue_internal_event ''x'' example_sim))
       = Inr []"
proof -
  let ?sim = "queue_internal_event ''x'' example_sim"
  have h1: "current_state_path ?sim \<noteq> []"
    by (simp add: queue_internal_event_def example_sim_def)
  have h2: "deref (last (current_state_path ?sim)) ?sim = Inr state_A"
    by (simp add: queue_internal_event_def example_sim_def deref_def)
  have h3: "(if ''ask'' \<noteq> [] then internal_event_queue ?sim @ [''ask'']
      else internal_event_queue ?sim) = [''x''] @ ''ask'' # []"
    by (simp add: queue_internal_event_def example_sim_def)
  have h4': "find (matches state_A ''x'') (transitions ?sim) = None"
    by (simp add: queue_internal_event_def example_defs matches_def)
  then have h4: "\<forall>x\<in>set [''x'']. find (matches state_A x) (transitions ?sim) = None"
    by simp
  have h5: "find (matches state_A ''ask'') (transitions ?sim) = Some on_ask"
    by (simp add: queue_internal_event_def example_defs matches_def)
  have h6: "condition on_ask \<noteq> []"
    by (simp add: on_ask_def)
  from step_awaits_condition [OF h1 h2 h3 h4 h5 h6]
  obtain sim' where s: "step ''ask'' ?sim = Inr sim'"
    and c: "action_log sim' = logged ''DURING_ACTION'' (if ''ask'' = [] then during_action state_A else [])
         @ [Log_entry ''AWAIT_CONDITION'' (condition on_ask)]"
      "pending_transition sim' = Some on_ask"
      "current_state_path sim' = current_state_path ?sim"
      "internal_event_queue sim' = []"
    by (elim exE conjE)
  have c1: "action_log sim' = [Log_entry ''AWAIT_CONDITION'' ''x > 0'']"
    using c(1) by (simp add: logged_def on_ask_def)
  have c3: "current_state_path sim' = [Ptr 1 0]"
    using c(3) by (simp add: queue_internal_event_def example_sim_def)
  show ?thesis
    using h1 h4' h5 h6 by (simp only: s c1 c(2) c3 c(4) map_sum.simps id_apply simp_thms)
qed

subsection \<open>C6: resolving a condition\<close>

text \<open>
  What \<^verbatim>\<open>resolve_condition\<close> does, case by case. It clears the log first. Without a
  pending transition it does nothing else. With one and the verdict false it logs one
  \<open>INFO\<close> entry, and with the verdict true it runs \<^verbatim>\<open>executeTransition\<close> on it, the
  function a step runs for an unconditional transition; where there is a current state to
  leave, that gives the same entries in the log and the same new current state. The
  pending transition is cleared whenever the call returns.
\<close>

lemma resolve_condition_cases:
  "(pending_transition sim = None \<longrightarrow>
      resolve_condition verdict sim = Inr (sim\<lparr>action_log := []\<rparr>))
   \<and> (pending_transition sim = Some tr \<longrightarrow>
      resolve_condition False sim =
        Inr (sim\<lparr>action_log := [Log_entry ''INFO'' ''Condition failed, transition aborted.''],
                 pending_transition := None\<rparr>))
   \<and> (pending_transition sim = Some tr \<longrightarrow>
      resolve_condition True sim =
        (case executeTransition tr (sim\<lparr>action_log := []\<rparr>) of
           Inl e \<Rightarrow> Inl e
         | Inr s \<Rightarrow> Inr (s\<lparr>pending_transition := None\<rparr>)))
   \<and> (pending_transition sim = Some tr \<and> current_state_path sim \<noteq> []
        \<and> deref (last (current_state_path sim)) sim = Inr cur
        \<and> state_map sim (target tr) = Some (Some p) \<and> deref p sim = Inr tgt \<longrightarrow>
      resolve_condition True sim =
        Inr (sim\<lparr>action_log := logged ''EXIT_STATE'' (exit_action cur)
                                 @ logged ''TRANSITION_ACTION'' (action tr)
                                 @ logged ''ENTRY_STATE'' (entry_action tgt),
                 current_state_path := butlast (current_state_path sim) @ [p],
                 pending_transition := None\<rparr>))"
proof (intro conjI impI)
  assume "pending_transition sim = None"
  then show "resolve_condition verdict sim = Inr (sim\<lparr>action_log := []\<rparr>)"
    by (simp add: resolve_condition_def)
next
  assume "pending_transition sim = Some tr"
  then show "resolve_condition False sim =
        Inr (sim\<lparr>action_log := [Log_entry ''INFO'' ''Condition failed, transition aborted.''],
                 pending_transition := None\<rparr>)"
    by (simp add: resolve_condition_def logAction_eq logged_def)
next
  assume "pending_transition sim = Some tr"
  then show "resolve_condition True sim =
        (case executeTransition tr (sim\<lparr>action_log := []\<rparr>) of
           Inl e \<Rightarrow> Inl e
         | Inr s \<Rightarrow> Inr (s\<lparr>pending_transition := None\<rparr>))"
    by (simp add: resolve_condition_def)
next
  assume a: "pending_transition sim = Some tr \<and> current_state_path sim \<noteq> []
        \<and> deref (last (current_state_path sim)) sim = Inr cur
        \<and> state_map sim (target tr) = Some (Some p) \<and> deref p sim = Inr tgt"
  let ?s1 = "sim\<lparr>action_log := []\<rparr>"
  have ne: "current_state_path ?s1 \<noteq> []" and cur: "deref (last (current_state_path ?s1)) ?s1 = Inr cur"
    using a by simp_all
  have "executeTransition tr ?s1 =
      Inr (sim\<lparr>action_log := logged ''EXIT_STATE'' (exit_action cur)
                                 @ logged ''TRANSITION_ACTION'' (action tr)
                                 @ logged ''ENTRY_STATE'' (entry_action tgt),
                 current_state_path := butlast (current_state_path sim) @ [p]\<rparr>)"
    using a by (simp add: executeTransition_eq [OF ne cur])
  with a show "resolve_condition True sim =
        Inr (sim\<lparr>action_log := logged ''EXIT_STATE'' (exit_action cur)
                                 @ logged ''TRANSITION_ACTION'' (action tr)
                                 @ logged ''ENTRY_STATE'' (entry_action tgt),
                 current_state_path := butlast (current_state_path sim) @ [p],
                 pending_transition := None\<rparr>)"
    by (simp add: resolve_condition_def)
qed

lemma resolve_condition_cases_example:
  "pending_transition example_sim = None
   \<and> resolve_condition True example_sim = Inr (example_sim\<lparr>action_log := []\<rparr>)
   \<and> pending_transition (example_sim\<lparr>pending_transition := Some on_ask\<rparr>) = Some on_ask
   \<and> resolve_condition False (example_sim\<lparr>pending_transition := Some on_ask\<rparr>) =
        Inr (example_sim\<lparr>action_log := [Log_entry ''INFO'' ''Condition failed, transition aborted.''],
                 pending_transition := None\<rparr>)
   \<and> resolve_condition True (example_sim\<lparr>pending_transition := Some on_ask\<rparr>) =
        Inr (example_sim\<lparr>action_log := [Log_entry ''EXIT_STATE'' ''leaveA'',
                                         Log_entry ''ENTRY_STATE'' ''enterB''],
                 current_state_path := [Ptr 1 1],
                 pending_transition := None\<rparr>)"
proof -
  let ?w = "example_sim\<lparr>pending_transition := Some on_ask\<rparr>"
  have n: "pending_transition example_sim = None"
    by (simp add: example_sim_def)
  have p: "pending_transition ?w = Some on_ask"
    by simp
  have h: "pending_transition ?w = Some on_ask \<and> current_state_path ?w \<noteq> []
        \<and> deref (last (current_state_path ?w)) ?w = Inr state_A
        \<and> state_map ?w (target on_ask) = Some (Some (Ptr 1 1)) \<and> deref (Ptr 1 1) ?w = Inr state_B"
    by (simp add: example_defs deref_def)
  note t = resolve_condition_cases [of example_sim True on_ask state_A "Ptr 1 1" state_B]
  note u = resolve_condition_cases [of ?w True on_ask state_A "Ptr 1 1" state_B]
  have 1: "resolve_condition True example_sim = Inr (example_sim\<lparr>action_log := []\<rparr>)"
    using t n by blast
  have 2: "resolve_condition False ?w =
        Inr (?w\<lparr>action_log := [Log_entry ''INFO'' ''Condition failed, transition aborted.''],
                 pending_transition := None\<rparr>)"
    using u p by blast
  have 3: "resolve_condition True ?w =
        Inr (?w\<lparr>action_log := logged ''EXIT_STATE'' (exit_action state_A)
                                 @ logged ''TRANSITION_ACTION'' (action on_ask)
                                 @ logged ''ENTRY_STATE'' (entry_action state_B),
                 current_state_path := butlast (current_state_path ?w) @ [Ptr 1 1],
                 pending_transition := None\<rparr>)"
    using u h by blast
  have 4: "logged ''EXIT_STATE'' (exit_action state_A) @ logged ''TRANSITION_ACTION'' (action on_ask)
             @ logged ''ENTRY_STATE'' (entry_action state_B)
           = [Log_entry ''EXIT_STATE'' ''leaveA'', Log_entry ''ENTRY_STATE'' ''enterB'']"
    by (simp add: logged_def state_A_def state_B_def on_ask_def)
  have 5: "butlast (current_state_path ?w) @ [Ptr 1 1] = [Ptr 1 1]"
    by (simp add: example_sim_def)
  show ?thesis
    using n 1 2 3 unfolding 4 5 by simp
qed

lemma api_run_append:
  "api_run dump (xs @ ys) sim =
     (case api_run dump xs sim of Inl e \<Rightarrow> Inl e | Inr s \<Rightarrow> api_run dump ys s)"
  by (induction xs arbitrary: sim) (simp_all split: sum.splits)

text \<open>
  Claim C6 says this of every call: with a pending transition and the verdict true the
  transition is executed as in the unconditional case, and the pending transition is
  cleared afterwards. \<^verbatim>\<open>step\<close> returns at once when the path is empty;
  \<^verbatim>\<open>resolve_condition\<close> has no such test. On the example, \<^verbatim>\<open>step("ask")\<close> suspends on
  the condition, and \<^verbatim>\<open>step("lost")\<close>, taken while suspended, leaves the path empty and
  the pending transition in place. \<^verbatim>\<open>resolve_condition(true)\<close> then runs
  \<^verbatim>\<open>executeTransition\<close>, which calls \<^verbatim>\<open>back()\<close> on the empty vector: nothing is
  executed and nothing is cleared.
\<close>

theorem resolve_condition_without_current_state:
  "map_sum id pending_transition (api_run no_dump [Step ''ask'', Step ''lost''] example_sim)
     = Inr (Some on_ask)
   \<and> map_sum id current_state_path (api_run no_dump [Step ''ask'', Step ''lost''] example_sim)
     = Inr []
   \<and> api_run no_dump [Step ''ask'', Step ''lost'', Resolve_condition True] example_sim
     = Inl Back_of_empty
   \<and> create_and_run no_dump
        [Load (Some example_document), Reset, Step ''ask'', Step ''lost'', Resolve_condition True]
     = Inl Back_of_empty"
proof -
  have a: "api_run no_dump [Step ''ask'', Step ''lost''] example_sim =
      Inr (example_sim\<lparr>state_map := (state_map example_sim)(''Missing'' \<mapsto> None),
             current_tick := 2, current_state_path := [],
             action_log := [Log_entry ''EXIT_STATE'' ''leaveA''],
             pending_transition := Some on_ask\<rparr>)"
    by (simp add: step_def example_defs step_loop.simps deref_def logAction_eq
      executeTransition_def enterState_eq executeAction_eq logged_def Let_def)
  have b: "api_run no_dump [Step ''ask'', Step ''lost'', Resolve_condition True] example_sim
     = Inl Back_of_empty"
    by (simp add: step_def example_defs step_loop.simps deref_def logAction_eq
      executeTransition_def enterState_eq executeAction_eq logged_def resolve_condition_def Let_def)
  have m: "create_fsm = Inr FsmSimulator_members"
    by (simp add: create_fsm_def reset_def FsmSimulator_members_def)
  have l: "api_run no_dump [Load (Some example_document), Reset] FsmSimulator_members
      = Inr example_sim"
    using example_sim_reached unfolding create_and_run_def m by simp
  have "api_run no_dump ([Load (Some example_document), Reset]
           @ [Step ''ask'', Step ''lost'', Resolve_condition True]) FsmSimulator_members
     = api_run no_dump [Step ''ask'', Step ''lost'', Resolve_condition True] example_sim"
    by (simp only: api_run_append l sum.case)
  then have c: "create_and_run no_dump
        [Load (Some example_document), Reset, Step ''ask'', Step ''lost'', Resolve_condition True]
     = api_run no_dump [Step ''ask'', Step ''lost'', Resolve_condition True] example_sim"
    unfolding create_and_run_def m by (simp only: append.simps sum.case)
  show ?thesis
    unfolding c b unfolding a by simp
qed

subsection \<open>C7: transitions on the empty event\<close>

text \<open>
  Claim C7 says that no run of \<^verbatim>\<open>step\<close> and \<^verbatim>\<open>queue_internal_event\<close> calls ever selects a
  transition whose event is the empty string. \<^verbatim>\<open>step\<close> does not enqueue an empty external
  name, but \<^verbatim>\<open>queue_internal_event\<close> enqueues any name: after it has queued the empty
  name, the scan of the next step compares the event of the fourth transition of the
  example with the empty name, selects it and moves the machine to \<open>B\<close>.
\<close>

theorem empty_event_counterexample:
  "find_transition (transitions example_sim) (last (current_state_path example_sim)) []
     (queue_internal_event [] example_sim) = Inr (Some on_nothing)
   \<and> event on_nothing = []
   \<and> map_sum id current_state_path
       (api_run no_dump [Queue_internal_event [], Step []] example_sim) = Inr [Ptr 1 1]
   \<and> current_state_path example_sim = [Ptr 1 0]"
  by (simp add: step_def queue_internal_event_def example_defs step_loop.simps deref_def
      executeTransition_def enterState_eq executeAction_eq logged_def)


text \<open>
  C7 as amended: from a simulator whose queue holds no empty name, a run of \<^verbatim>\<open>step\<close>
  calls and of \<^verbatim>\<open>queue_internal_event\<close> calls with non-empty names goes exactly as it goes
  on the model without the transitions on the empty event, so none of them is ever
  selected; and the queue holds no empty name afterwards either.
\<close>

theorem empty_event_transitions_inert:
  assumes "[] \<notin> set (internal_event_queue sim)"
    and "\<forall>c\<in>set cs. steps_named_events c"
    and "api_run dump cs sim = Inr sim'"
  shows "api_run dump cs (without_empty_events sim) = Inr (without_empty_events sim')
       \<and> [] \<notin> set (internal_event_queue sim')"
  using assms by (rule api_run_without)

theorem empty_event_transitions_inert_witness:
  "[] \<notin> set (internal_event_queue example_sim)
   \<and> steps_named_events (Queue_internal_event ''x'' :: nat call)
   \<and> steps_named_events (Step ''go'' :: nat call)
   \<and> api_run no_dump [Queue_internal_event ''x'', Step ''go''] (without_empty_events example_sim)
       = map_sum id without_empty_events
           (api_run no_dump [Queue_internal_event ''x'', Step ''go''] example_sim)
   \<and> map_sum id current_state_path
       (api_run no_dump [Queue_internal_event ''x'', Step ''go''] example_sim) = Inr [Ptr 1 1]"
proof -
  let ?cs = "[Queue_internal_event ''x'', Step ''go''] :: nat call list"
  have h1: "[] \<notin> set (internal_event_queue example_sim)"
    by (simp add: example_sim_def)
  have h2: "\<forall>c\<in>set ?cs. steps_named_events c"
    by simp
  obtain s where r: "api_run no_dump ?cs example_sim = Inr s"
    and p: "current_state_path s = [Ptr 1 1]"
    by (simp add: step_def queue_internal_event_def example_defs step_loop.simps deref_def
      executeTransition_def enterState_eq executeAction_eq logged_def)
  from empty_event_transitions_inert [OF h1 h2 r]
  have "api_run no_dump ?cs (without_empty_events example_sim) = Inr (without_empty_events s)"
    by simp
  then have a: "api_run no_dump ?cs (without_empty_events example_sim)
       = map_sum id without_empty_events (api_run no_dump ?cs example_sim)"
    unfolding r by simp
  have b: "map_sum id current_state_path (api_run no_dump ?cs example_sim) = Inr [Ptr 1 1]"
    unfolding r using p by simp
  have c: "steps_named_events (Queue_internal_event ''x'' :: nat call)"
    "steps_named_events (Step ''go'' :: nat call)"
    by simp_all
  from h1 c a b show ?thesis by (intro conjI)
qed

subsection \<open>C8: the length of the path\<close>

text \<open>
  Claim C8: the path of current states holds at most one pointer in every state a client
  can reach, that is after \<^verbatim>\<open>create_fsm\<close> and any calls of the interface that return.
\<close>

theorem path_at_most_one:
  "create_and_run dump cs = Inr sim \<Longrightarrow> length (current_state_path sim) \<le> 1"
proof -
  assume a: "create_and_run dump cs = Inr sim"
  have c: "create_fsm = Inr FsmSimulator_members"
    by (simp add: create_fsm_def reset_def FsmSimulator_members_def)
  from a have "api_run dump cs FsmSimulator_members = Inr sim"
    unfolding create_and_run_def c by simp
  moreover have "length (current_state_path FsmSimulator_members) \<le> 1"
    by (simp add: FsmSimulator_members_def)
  ultimately show ?thesis by (rule api_run_path)
qed

theorem path_at_most_one_witness:
  "create_and_run no_dump [Load (Some example_document), Reset] = Inr example_sim
   \<and> length (current_state_path example_sim) \<le> 1"
  using path_at_most_one [OF example_sim_reached] example_sim_reached by simp

subsection \<open>C9: reading the log\<close>

text \<open>
  Claim C9: \<^verbatim>\<open>get_and_clear_log_json\<close> takes the log and clears it. The first call returns
  the entries appended since the log was last cleared, in the order in which they were
  appended; a second call returns the empty log, also after calls between the two other
  than \<^verbatim>\<open>step\<close>, \<^verbatim>\<open>resolve_condition\<close> and \<^verbatim>\<open>reset_fsm\<close>.
\<close>

theorem drain_log_take_and_clear:
  "fst (getAndClearLogJson sim) = action_log sim
   \<and> fst (getAndClearLogJson (snd (getAndClearLogJson sim))) = []
   \<and> ((\<forall>c\<in>set cs. keeps_log c) \<and> api_run dump cs (snd (getAndClearLogJson sim)) = Inr sim'
        \<longrightarrow> fst (getAndClearLogJson sim') = [])
   \<and> fst (getAndClearLogJson
            (foldl (\<lambda>s (ty, dat). logAction ty dat s) (snd (getAndClearLogJson sim)) es))
       = concat (map (\<lambda>(ty, dat). logged ty dat) es)"
proof -
  have "fst (getAndClearLogJson sim') = []"
    if "\<forall>c\<in>set cs. keeps_log c" "api_run dump cs (snd (getAndClearLogJson sim)) = Inr sim'"
    using api_run_keeps_log [OF that(2,1)] by (simp add: getAndClearLogJson_def)
  then show ?thesis
    by (simp add: getAndClearLogJson_def log_accumulates)
qed

theorem drain_log_take_and_clear_witness:
  "keeps_log (Queue_internal_event ''x'' :: nat call) \<and> keeps_log (Load None :: nat call)
   \<and> fst (getAndClearLogJson (example_sim\<lparr>action_log := [Log_entry ''INFO'' ''note'']\<rparr>))
       = [Log_entry ''INFO'' ''note'']
   \<and> map_sum id (\<lambda>s. fst (getAndClearLogJson s))
        (api_run no_dump [Queue_internal_event ''x'', Load None]
           (snd (getAndClearLogJson (example_sim\<lparr>action_log := [Log_entry ''INFO'' ''note'']\<rparr>))))
       = Inr []"
proof -
  let ?sim = "example_sim\<lparr>action_log := [Log_entry ''INFO'' ''note'']\<rparr>"
  let ?cs = "[Queue_internal_event ''x'', Load None] :: nat call list"
  obtain s where r: "api_run no_dump ?cs (snd (getAndClearLogJson ?sim)) = Inr s"
    by simp
  have k: "\<forall>c\<in>set ?cs. keeps_log c" by simp
  from drain_log_take_and_clear [of ?sim ?cs no_dump s] k r
  have "fst (getAndClearLogJson s) = []" and "fst (getAndClearLogJson ?sim) = action_log ?sim"
    by blast+
  with r show ?thesis by simp
qed

subsection \<open>C10: setting the initial variables\<close>

text \<open>
  Claim C10: \<^verbatim>\<open>set_initial_variables_from_json\<close> with a document that parses replaces the
  stored initial variables and nothing else. The new snapshot shows only through a later
  reset: what the simulator hands back is what it handed back before, every other call
  does to the new simulator what it did to the old one, the snapshot carried along, and
  a reset makes the snapshot the variables.
\<close>

theorem set_initial_variables_frame:
  "\<exists>snapshot.
     set_initial_variables_from_json dump (Some data) sim = Inr (sim\<lparr>initial_variables := snapshot\<rparr>)
   \<and> getCurrentStateName (sim\<lparr>initial_variables := snapshot\<rparr>) = getCurrentStateName sim
   \<and> getVariablesJson (sim\<lparr>initial_variables := snapshot\<rparr>) = getVariablesJson sim
   \<and> getCurrentTick (sim\<lparr>initial_variables := snapshot\<rparr>) = getCurrentTick sim
   \<and> getAndClearLogJson (sim\<lparr>initial_variables := snapshot\<rparr>)
       = map_prod id (\<lambda>s. s\<lparr>initial_variables := snapshot\<rparr>) (getAndClearLogJson sim)
   \<and> step ev (sim\<lparr>initial_variables := snapshot\<rparr>)
       = map_sum id (\<lambda>s. s\<lparr>initial_variables := snapshot\<rparr>) (step ev sim)
   \<and> resolve_condition verdict (sim\<lparr>initial_variables := snapshot\<rparr>)
       = map_sum id (\<lambda>s. s\<lparr>initial_variables := snapshot\<rparr>) (resolve_condition verdict sim)
   \<and> queue_internal_event e (sim\<lparr>initial_variables := snapshot\<rparr>)
       = (queue_internal_event e sim)\<lparr>initial_variables := snapshot\<rparr>
   \<and> load_fsm_from_json doc (sim\<lparr>initial_variables := snapshot\<rparr>)
       = map_prod id (\<lambda>s. s\<lparr>initial_variables := snapshot\<rparr>) (load_fsm_from_json doc sim)
   \<and> (\<exists>r. reset (sim\<lparr>initial_variables := snapshot\<rparr>) = Inr r \<and> variables r = snapshot)"
proof -
  from setInitialVariables_eq [of dump data sim]
  obtain m where m: "setInitialVariables dump (Some data) sim = Inr (sim\<lparr>initial_variables := m\<rparr>)"
    by blast
  have "set_initial_variables_from_json dump (Some data) sim = Inr (sim\<lparr>initial_variables := m\<rparr>)"
    using m by (simp add: set_initial_variables_from_json_def)
  moreover have "getCurrentStateName (sim\<lparr>initial_variables := m\<rparr>) = getCurrentStateName sim"
    by (simp add: getCurrentStateName_def)
  moreover have "getVariablesJson (sim\<lparr>initial_variables := m\<rparr>) = getVariablesJson sim"
    by (simp add: getVariablesJson_def)
  moreover have "getCurrentTick (sim\<lparr>initial_variables := m\<rparr>) = getCurrentTick sim"
    by (simp add: getCurrentTick_def)
  moreover have "getAndClearLogJson (sim\<lparr>initial_variables := m\<rparr>)
       = map_prod id (\<lambda>s. s\<lparr>initial_variables := m\<rparr>) (getAndClearLogJson sim)"
    by (simp add: getAndClearLogJson_def iv_out)
  moreover have "queue_internal_event e (sim\<lparr>initial_variables := m\<rparr>)
       = (queue_internal_event e sim)\<lparr>initial_variables := m\<rparr>"
    by (simp add: queue_internal_event_def iv_out)
  moreover note step_snapshot [where ev = ev and sim = sim and x = m]
    resolve_condition_snapshot [where verdict = verdict and sim = sim and x = m]
    load_fsm_from_json_snapshot [where doc = doc and sim = sim and x = m]
    reset_snapshot [where sim = sim and x = m]
  ultimately show ?thesis by blast
qed


theorem set_initial_variables_frame_witness:
  "map_sum id current_state_path
     (set_initial_variables_from_json no_dump (Some (JObject [(''x'', JNumber 1)])) example_sim)
     = Inr (current_state_path example_sim)
   \<and> map_sum id variables
     (set_initial_variables_from_json no_dump (Some (JObject [(''x'', JNumber 1)])) example_sim)
     = Inr (variables example_sim)
   \<and> map_sum id initial_variables
     (set_initial_variables_from_json no_dump (Some (JObject [(''x'', JNumber 1)])) example_sim)
     = Inr [''x'' \<mapsto> []]"
proof -
  from set_initial_variables_frame [of no_dump "JObject [(''x'', JNumber 1)]" example_sim]
  obtain snapshot where
    s: "set_initial_variables_from_json no_dump (Some (JObject [(''x'', JNumber 1)])) example_sim
          = Inr (example_sim\<lparr>initial_variables := snapshot\<rparr>)"
    by blast
  have a: "map_sum id current_state_path
     (set_initial_variables_from_json no_dump (Some (JObject [(''x'', JNumber 1)])) example_sim)
     = Inr (current_state_path example_sim)"
    unfolding s by simp
  have b: "map_sum id variables
     (set_initial_variables_from_json no_dump (Some (JObject [(''x'', JNumber 1)])) example_sim)
     = Inr (variables example_sim)"
    unfolding s by simp
  have c: "map_sum id initial_variables
     (set_initial_variables_from_json no_dump (Some (JObject [(''x'', JNumber 1)])) example_sim)
     = Inr [''x'' \<mapsto> []]"
    by (simp add: set_initial_variables_from_json_def setInitialVariables_def no_dump_def)
  from a b c show ?thesis by (intro conjI)
qed

end
